theory Spec2Isabelle
  imports Main "HOL-Library.Extended_Nat" "HOL-Library.Multiset"
begin

section \<open>Risk detector (src/lib/risk-detector.js)\<close>

text \<open>
  JavaScript values are modelled by what the code can observe of them. A property that
  holds a string or is \<open>null\<close>/\<open>undefined\<close> is a \<open>string option\<close>; \<open>hasBlockers\<close> is
  \<open>true\<close>, \<open>false\<close> or \<open>null\<close>, a \<open>bool option\<close>, and it is truthy exactly when it is
  \<open>Some True\<close>. Timestamps are ISO-8601 strings in the source, compared only
  chronologically; they are natural numbers of milliseconds here.
\<close>

record project_update =
  u_projectGid :: "string option"
  u_projectName :: "string option"
  u_pmSlackId :: string
  u_status :: "string option"
  u_advances :: string
  u_hasBlockers :: "bool option"
  u_blockerDescription :: "string option"
  u_timestamp :: nat

record current_update =
  c_status :: "string option"
  c_hasBlockers :: "bool option"

record alert_result =
  ar_shouldAlert :: bool
  ar_reason :: "string option"

definition truthy_bool :: "bool option \<Rightarrow> bool" where
  "truthy_bool b = (b = Some True)"

text \<open>\<open>shouldAlert(currentUpdate, previousUpdates)\<close>, conditions A, B, C in the source's order.\<close>

definition shouldAlert :: "current_update \<Rightarrow> project_update list \<Rightarrow> alert_result" where
  "shouldAlert currentUpdate previousUpdates =
     (if c_status currentUpdate = Some ''off_track''
      then \<lparr>ar_shouldAlert = True, ar_reason = Some ''Proyecto reportado como Off Track''\<rparr>
      else if c_status currentUpdate = Some ''at_risk'' \<and> length previousUpdates > 0
              \<and> u_status (previousUpdates ! 0) = Some ''at_risk''
      then \<lparr>ar_shouldAlert = True,
            ar_reason = Some ''Proyecto en riesgo por 2 reportes consecutivos''\<rparr>
      else if truthy_bool (c_hasBlockers currentUpdate)
              \<and> c_status currentUpdate \<noteq> Some ''on_track''
      then \<lparr>ar_shouldAlert = True,
            ar_reason = Some ''Bloqueo reportado en proyecto con riesgo''\<rparr>
      else \<lparr>ar_shouldAlert = False, ar_reason = None\<rparr>)"

section \<open>JavaScript string helpers\<close>

text \<open>
  \<open>x || null\<close> and \<open>!x\<close> on a string-or-null value: the empty string is falsy like
  \<open>null\<close>.
\<close>

definition or_null :: "string option \<Rightarrow> string option" where
  "or_null x = (case x of None \<Rightarrow> None | Some s \<Rightarrow> if s = [] then None else Some s)"

definition falsy :: "string option \<Rightarrow> bool" where
  "falsy x = (or_null x = None)"

definition or_empty :: "string option \<Rightarrow> string" where
  "or_empty x = (case x of None \<Rightarrow> [] | Some s \<Rightarrow> s)"

text \<open>
  \<open>toLowerCase\<close> on the ASCII letters. JavaScript also folds letters outside ASCII, but
  none of them folds to a letter of the literals the code compares with
  (\<open>completed\<close>, \<open>status\<close>, \<open>pmo id\<close>), so the comparisons below are unaffected.
\<close>

definition toLowerChar :: "char \<Rightarrow> char" where
  "toLowerChar c =
     (case map_of (zip ''ABCDEFGHIJKLMNOPQRSTUVWXYZ'' ''abcdefghijklmnopqrstuvwxyz'') c of
        Some d \<Rightarrow> d
      | None \<Rightarrow> c)"

definition toLowerCase :: "string \<Rightarrow> string" where
  "toLowerCase s = map toLowerChar s"

fun includes_str :: "string \<Rightarrow> string \<Rightarrow> bool" where
  "includes_str [] sub = (sub = [])"
| "includes_str (c # cs) sub = (take (length sub) (c # cs) = sub \<or> includes_str cs sub)"

section \<open>External project source with retry (services/asana.js)\<close>

text \<open>
  An error thrown by the client carries \<open>error.status\<close>, \<open>error.response.status\<close> and
  the \<open>retry-after\<close> header. \<open>e_retry_after\<close> is the header read as a whole number of
  seconds; \<open>None\<close> stands for a header that is absent, empty or not a number, for which
  \<open>Number(header || 0)\<close> is \<open>0\<close> or \<open>NaN\<close> and the test \<open>retryAfter > 0\<close> is false.
\<close>

record api_error =
  e_status :: "int option"
  e_response_status :: "int option"
  e_retry_after :: "int option"

datatype 'a api_result = Ok 'a | Failed api_error

definition error_status :: "api_error \<Rightarrow> int option" where
  \<comment> \<open>\<open>error?.status || error?.response?.status\<close>\<close>
  "error_status e =
     (case e_status e of
        Some n \<Rightarrow> if n \<noteq> 0 then Some n else e_response_status e
      | None \<Rightarrow> e_response_status e)"

definition backoff_delay :: "api_error \<Rightarrow> nat \<Rightarrow> int" where
  "backoff_delay e attempt =
     (let retryAfter = (case e_retry_after e of None \<Rightarrow> 0 | Some r \<Rightarrow> r)
      in if retryAfter > 0 then retryAfter * 1000 else 1000 * 2 ^ attempt)"

text \<open>
  The body shared by \<open>getProjectDetailWithRetry\<close> and \<open>getProjectsPageWithRetry\<close>:
  \<open>while (true) { try { return await call } catch { ... } }\<close>. The external call is a
  function from the number of the attempt to the response it gets; the loop makes one
  call per iteration and \<open>attempt\<close> counts the iterations. The delays slept are logged.
\<close>

function retry_loop ::
  "(nat \<Rightarrow> 'a api_result) \<Rightarrow> nat \<Rightarrow> nat \<Rightarrow> int list \<Rightarrow> 'a api_result \<times> int list" where
  "retry_loop call retries attempt slept =
     (case call attempt of
        Ok r \<Rightarrow> (Ok r, slept)
      | Failed e \<Rightarrow>
          if error_status e = Some 429 \<and> attempt < retries
          then retry_loop call retries (attempt + 1) (slept @ [backoff_delay e attempt])
          else (Failed e, slept))"
  by pat_completeness auto
termination
  by (relation "measure (\<lambda>(call, retries, attempt, slept). retries - attempt)") auto

record custom_field =
  cf_name :: "string option"
  cf_display_value :: "string option"

type_synonym detail_api = "string \<Rightarrow> nat \<Rightarrow> custom_field list api_result"

definition getProjectDetailWithRetry ::
  "detail_api \<Rightarrow> string \<Rightarrow> nat \<Rightarrow> custom_field list api_result \<times> int list" where
  "getProjectDetailWithRetry api projectGid retries = retry_loop (api projectGid) retries 0 []"

record listed_project =
  l_gid :: string
  l_name :: "string option"
  l_archived :: bool

type_synonym page_call = "nat \<Rightarrow> listed_project list api_result"

definition getProjectsPageWithRetry ::
  "page_call \<Rightarrow> nat \<Rightarrow> listed_project list api_result \<times> int list" where
  "getProjectsPageWithRetry page retries = retry_loop page retries 0 []"

text \<open>
  The external source as one cycle sees it: the answer to \<open>getWorkspaces\<close>, for each
  workspace the chain of listing pages that the \<open>next_page\<close> offsets link (the
  \<open>do ... while (offset)\<close> loop reads at least the first), and the detail call of every
  project. Each call answers as a function of the attempt.
\<close>

record workspace =
  ws_gid :: string
  ws_first_page :: page_call
  ws_more_pages :: "page_call list"

record source =
  src_workspaces :: "workspace list api_result"
  src_detail :: detail_api

record cached_project =
  p_gid :: string
  p_name :: "string option"
  p_responsable :: "string option"
  p_status :: "string option"
  p_pmoId :: "string option"

fun list_pages :: "page_call list \<Rightarrow> api_error + listed_project list" where
  "list_pages [] = Inr []"
| "list_pages (page # pages) =
     (case fst (getProjectsPageWithRetry page 3) of
        Failed e \<Rightarrow> Inl e
      | Ok projects \<Rightarrow>
          (case list_pages pages of
             Inl e \<Rightarrow> Inl e
           | Inr rest \<Rightarrow> Inr (filter (\<lambda>p. \<not> l_archived p) projects @ rest)))"

definition find_field :: "(custom_field \<Rightarrow> bool) \<Rightarrow> custom_field list \<Rightarrow> string option" where
  \<comment> \<open>\<open>customFields.find(pred)?.display_value || null\<close>\<close>
  "find_field pred customFields =
     (case find pred customFields of None \<Rightarrow> None | Some cf \<Rightarrow> or_null (cf_display_value cf))"

definition is_status_field :: "custom_field \<Rightarrow> bool" where
  "is_status_field cf = (\<not> falsy (cf_name cf) \<and> toLowerCase (or_empty (cf_name cf)) = ''status'')"

definition is_responsable_field :: "custom_field \<Rightarrow> bool" where
  "is_responsable_field cf = (cf_name cf = Some ''Responsable Proyecto'')"

definition is_pmo_id_field :: "custom_field \<Rightarrow> bool" where
  "is_pmo_id_field cf =
     (\<not> falsy (cf_name cf) \<and> includes_str (toLowerCase (or_empty (cf_name cf))) ''pmo id'')"

text \<open>
  One element of \<open>batch.map(async (project) => { try { ... } catch { return null } })\<close>:
  a detail call that fails after its retries gives \<open>null\<close>.
\<close>

definition fetch_detail :: "detail_api \<Rightarrow> listed_project \<Rightarrow> cached_project option" where
  "fetch_detail api project =
     (case fst (getProjectDetailWithRetry api (l_gid project) 3) of
        Failed e \<Rightarrow> None
      | Ok customFields \<Rightarrow>
          Some \<lparr>p_gid = l_gid project, p_name = l_name project,
                p_responsable = find_field is_responsable_field customFields,
                p_status = find_field is_status_field customFields,
                p_pmoId = find_field is_pmo_id_field customFields\<rparr>)"

definition BATCH_SIZE :: nat where
  "BATCH_SIZE = 10"

function process_batches :: "detail_api \<Rightarrow> listed_project list \<Rightarrow> cached_project list" where
  "process_batches api projectList =
     (if projectList = [] then []
      else
        (let batch = take BATCH_SIZE projectList;
             results = map (fetch_detail api) batch;
             validResults = filter (\<lambda>r. r \<noteq> None) results
         in map the validResults @ process_batches api (drop BATCH_SIZE projectList)))"
  by pat_completeness auto
termination
  by (relation "measure (\<lambda>(api, projectList). length projectList)") (auto simp: BATCH_SIZE_def)

fun all_workspaces :: "detail_api \<Rightarrow> workspace list \<Rightarrow> api_error + cached_project list" where
  "all_workspaces api [] = Inr []"
| "all_workspaces api (w # ws) =
     (case list_pages (ws_first_page w # ws_more_pages w) of
        Inl e \<Rightarrow> Inl e
      | Inr projectList \<Rightarrow>
          (case all_workspaces api ws of
             Inl e \<Rightarrow> Inl e
           | Inr rest \<Rightarrow> Inr (process_batches api projectList @ rest)))"

definition getAllActiveProjectsWithResponsable :: "source \<Rightarrow> api_error + cached_project list" where
  "getAllActiveProjectsWithResponsable src =
     (case src_workspaces src of
        Failed e \<Rightarrow> Inl e
      | Ok workspacesList \<Rightarrow> all_workspaces (src_detail src) workspacesList)"

section \<open>Cache refresh handler (handlers/cache-refresh.js)\<close>

type_synonym cache = "string \<rightharpoonup> cached_project"

text \<open>
  Modelled from the spec: \<open>deleteProjectCache\<close> and \<open>upsertProjectCache\<close> of the store
  service are called by the handler but are not among the sources. The specification
  gives the cache as keyed by project and the upsert as a full overwrite of the record.
\<close>

definition deleteProjectCache :: "string \<Rightarrow> cache \<Rightarrow> cache" where
  "deleteProjectCache gid c = c(gid := None)"

definition upsertProjectCache :: "cached_project \<Rightarrow> cache \<Rightarrow> cache" where
  "upsertProjectCache project c = c(p_gid project \<mapsto> project)"

record summary =
  s_totalProjects :: nat
  s_updated :: nat
  s_deleted :: nat
  s_skipped :: nat

definition is_completed :: "cached_project \<Rightarrow> bool" where
  \<comment> \<open>\<open>(project.status || '').toLowerCase() === 'completed'\<close>\<close>
  "is_completed project = (toLowerCase (or_empty (p_status project)) = ''completed'')"

definition lacks_owner_and_id :: "cached_project \<Rightarrow> bool" where
  \<comment> \<open>\<open>!project.pmoId && !project.responsable\<close>\<close>
  "lacks_owner_and_id project = (falsy (p_pmoId project) \<and> falsy (p_responsable project))"

text \<open>The \<open>for (const project of allProjects)\<close> loop with its three counters.\<close>

fun refresh_loop ::
  "cached_project list \<Rightarrow> cache \<times> nat \<times> nat \<times> nat \<Rightarrow> cache \<times> nat \<times> nat \<times> nat" where
  "refresh_loop [] st = st"
| "refresh_loop (project # rest) (c, updated, deleted, skipped) =
     (if is_completed project
      then refresh_loop rest (deleteProjectCache (p_gid project) c, updated, deleted + 1, skipped)
      else if lacks_owner_and_id project
      then refresh_loop rest (c, updated, deleted, skipped + 1)
      else refresh_loop rest (upsertProjectCache project c, updated + 1, deleted, skipped))"

datatype response = Http200 summary | Http500

definition cache_refresh_handler :: "source \<Rightarrow> cache \<Rightarrow> response \<times> cache" where
  "cache_refresh_handler src c =
     (case getAllActiveProjectsWithResponsable src of
        Inl e \<Rightarrow> (Http500, c)
      | Inr allProjects \<Rightarrow>
          (case refresh_loop allProjects (c, 0, 0, 0) of
             (c', updated, deleted, skipped) \<Rightarrow>
               (Http200 \<lparr>s_totalProjects = length allProjects, s_updated = updated,
                         s_deleted = deleted, s_skipped = skipped\<rparr>, c')))"

section \<open>Persistent store and messaging gateway (services/dynamo.js, services/slack.js)\<close>

record pending_project =
  pp_gid :: string
  pp_name :: "string option"
  pp_pmoId :: "string option"
  pp_status :: "string option"

text \<open>
  The conversation item of one user, with the keys that the update flow reads or writes.
  A key that is absent or \<open>null\<close> is \<open>None\<close>; the marker \<open>cleared: true\<close> is a flag. The
  keys of the project search (\<open>searchResults\<close>, \<open>lastProjectGid\<close>, ...) are not modelled.
\<close>

record conv_state =
  cs_slackUserId :: "string option"
  cs_step :: "string option"
  cs_pendingProjects :: "pending_project list option"
  cs_currentIndex :: "nat option"
  cs_currentProjectGid :: "string option"
  cs_currentProjectName :: "string option"
  cs_currentProjectPmoId :: "string option"
  cs_status :: "string option"
  cs_hasBlockers :: "bool option"
  cs_blockerDescription :: "string option"
  cs_lastPromptAt :: "nat option"
  cs_snoozeUntil :: "nat option"
  cs_startedAt :: "nat option"
  cs_cleared :: bool
  cs_updatedAt :: "nat option"
  cs_expiresAt :: "nat option"

definition empty_state :: conv_state where
  "empty_state =
     \<lparr>cs_slackUserId = None, cs_step = None, cs_pendingProjects = None, cs_currentIndex = None,
      cs_currentProjectGid = None, cs_currentProjectName = None, cs_currentProjectPmoId = None,
      cs_status = None, cs_hasBlockers = None, cs_blockerDescription = None,
      cs_lastPromptAt = None, cs_snoozeUntil = None, cs_startedAt = None, cs_cleared = False,
      cs_updatedAt = None, cs_expiresAt = None\<rparr>"

datatype notice =
    HelpReply
  | ResetReply
  | ProjectsReply
  | OnboardingComplete
  | RemindBlockers "string option"
  | RemindAdvances "string option"

datatype slack_msg =
    UpdateRequest string "string option" "string option"
  | Notice string notice

record world =
  w_conversations :: "string \<rightharpoonup> conv_state"
  w_updates :: "project_update list"
  w_sent :: "slack_msg list"

datatype error = StoreError | SlackError | ReferenceError

text \<open>
  The calls that can throw, and for which key they do in the run considered. A conversation
  read that fails is caught inside \<open>getConversationState\<close> and answers \<open>null\<close>. The users
  table is modelled by its failure only.
\<close>

record faults =
  f_getConversation :: "string \<Rightarrow> bool"
  f_putConversation :: "string \<Rightarrow> bool"
  f_getLastUpdates :: "string option \<Rightarrow> bool"
  f_post :: "string \<Rightarrow> bool"
  f_users :: bool
  f_scanUsers :: bool
  f_scanUpdates :: bool
  f_getProjects :: "string \<Rightarrow> bool"

definition no_faults :: faults where
  "no_faults =
     \<lparr>f_getConversation = (\<lambda>u. False), f_putConversation = (\<lambda>u. False),
      f_getLastUpdates = (\<lambda>g. False), f_post = (\<lambda>c. False), f_users = False,
      f_scanUsers = False, f_scanUpdates = False, f_getProjects = (\<lambda>n. False)\<rparr>"

text \<open>
  An asynchronous function is a function from the world before to its answer, a value or
  the exception thrown, and the world after. All clock reads of one handler invocation give
  the same value, passed as \<open>now\<close>.
\<close>

type_synonym 'a io = "world \<Rightarrow> (error + 'a) \<times> world"

definition then_do :: "'a io \<Rightarrow> ('a \<Rightarrow> 'b io) \<Rightarrow> 'b io" where
  \<comment> \<open>\<open>await\<close> one call, then go on; an exception ends the sequence and keeps the effects so far\<close>
  "then_do m f w = (case m w of (Inl e, w') \<Rightarrow> (Inl e, w') | (Inr x, w') \<Rightarrow> f x w')"

definition result :: "'a \<Rightarrow> 'a io" where
  "result x w = (Inr x, w)"

definition post :: "faults \<Rightarrow> string \<Rightarrow> slack_msg \<Rightarrow> unit io" where
  \<comment> \<open>\<open>slackClient.chat.postMessage\<close>, rethrown by every sender\<close>
  "post fl channel msg w =
     (if f_post fl channel then (Inl SlackError, w)
      else (Inr (), w\<lparr>w_sent := w_sent w @ [msg]\<rparr>))"

definition sendUpdateRequest ::
  "faults \<Rightarrow> string \<Rightarrow> string option \<Rightarrow> string option \<Rightarrow> unit io" where
  "sendUpdateRequest fl slackUserId projectName projectGid =
     post fl slackUserId (UpdateRequest slackUserId projectName projectGid)"

definition sendMessage :: "faults \<Rightarrow> string \<Rightarrow> notice \<Rightarrow> unit io" where
  "sendMessage fl channel text = post fl channel (Notice channel text)"

text \<open>
  The updates table has the key (\<open>PROJECT#gid\<close>, \<open>UPDATE#timestamp\<close>): the query answers
  the items of one project in descending order of the sort key, cut at \<open>Limit\<close>.
\<close>

definition getLastUpdates :: "faults \<Rightarrow> string option \<Rightarrow> nat \<Rightarrow> project_update list io" where
  "getLastUpdates fl projectGid limit w =
     (if f_getLastUpdates fl projectGid then (Inl StoreError, w)
      else (Inr (take limit
                   (rev (sort_key u_timestamp
                           (filter (\<lambda>u. u_projectGid u = projectGid) (w_updates w))))), w))"

definition DAY_MS :: nat where
  "DAY_MS = 86400000"

definition updated_today :: "nat \<Rightarrow> world \<Rightarrow> string option list" where
  \<comment> \<open>the distinct \<open>projectGid\<close> of the items whose sort key begins with today's UTC date\<close>
  "updated_today now w =
     remdups (map u_projectGid
                (filter (\<lambda>u. u_timestamp u div DAY_MS = now div DAY_MS) (w_updates w)))"

definition getProjectsUpdatedToday :: "faults \<Rightarrow> nat \<Rightarrow> string option list io" where
  "getProjectsUpdatedToday fl now w =
     (if f_scanUpdates fl then (Inl StoreError, w) else (Inr (updated_today now w), w))"

definition dynamo_getConversationState :: "faults \<Rightarrow> string \<Rightarrow> world \<Rightarrow> conv_state option" where
  "dynamo_getConversationState fl slackUserId w =
     (if f_getConversation fl slackUserId then None else w_conversations w slackUserId)"

definition stamp :: "conv_state \<Rightarrow> nat \<Rightarrow> conv_state" where
  \<comment> \<open>\<open>{ pk, ...state, updatedAt, expiresAt: Math.floor(Date.now() / 1000) + 3600 }\<close>\<close>
  "stamp state now = state\<lparr>cs_updatedAt := Some now, cs_expiresAt := Some (now div 1000 + 3600)\<rparr>"

definition dynamo_setConversationState :: "faults \<Rightarrow> string \<Rightarrow> conv_state \<Rightarrow> nat \<Rightarrow> unit io" where
  "dynamo_setConversationState fl slackUserId state now w =
     (if f_putConversation fl slackUserId then (Inl StoreError, w)
      else (Inr (), w\<lparr>w_conversations := (w_conversations w)(slackUserId \<mapsto> stamp state now)\<rparr>))"

definition cleared_marker :: conv_state where
  "cleared_marker = empty_state\<lparr>cs_cleared := True\<rparr>"

definition dynamo_clearConversationState :: "faults \<Rightarrow> string \<Rightarrow> nat \<Rightarrow> unit io" where
  \<comment> \<open>overwrites with \<open>{ cleared: true }\<close>; a failure is logged and swallowed\<close>
  "dynamo_clearConversationState fl slackUserId now w =
     (Inr (), snd (dynamo_setConversationState fl slackUserId cleared_marker now w))"

section \<open>Conversation state manager (lib/conversation-state.js)\<close>

definition getConversationState :: "faults \<Rightarrow> string \<Rightarrow> world \<Rightarrow> conv_state option" where
  "getConversationState = dynamo_getConversationState"

text \<open>
  \<open>setConversationState(slackUserId, state)\<close> writes
  \<open>{ ...currentState, ...state, slackUserId, startedAt: currentState.startedAt || now }\<close>.
  The argument is given as the overlay that the object literal \<open>state\<close> is on the current
  item: the function that sets the keys the literal has.
\<close>

definition setConversationState ::
  "faults \<Rightarrow> string \<Rightarrow> (conv_state \<Rightarrow> conv_state) \<Rightarrow> nat \<Rightarrow> conv_state io" where
  "setConversationState fl slackUserId state now w =
     (let currentState =
            (case getConversationState fl slackUserId w of None \<Rightarrow> empty_state | Some st \<Rightarrow> st);
          newState = (state currentState)
            \<lparr>cs_slackUserId := Some slackUserId,
             cs_startedAt := (case cs_startedAt currentState of None \<Rightarrow> Some now | Some t \<Rightarrow> Some t)\<rparr>
      in then_do (dynamo_setConversationState fl slackUserId newState now) (\<lambda>_. result newState) w)"

definition clearConversationState :: "faults \<Rightarrow> string \<Rightarrow> nat \<Rightarrow> unit io" where
  "clearConversationState = dynamo_clearConversationState"

definition spread :: "conv_state option \<Rightarrow> conv_state \<Rightarrow> conv_state" where
  \<comment> \<open>\<open>...state\<close> in a literal: a state read from the store has every key of the stored item,
      so it replaces the current item; \<open>...null\<close> adds no key\<close>
  "spread state currentState = (case state of None \<Rightarrow> currentState | Some st \<Rightarrow> st)"

definition isInUpdateFlow :: "conv_state option \<Rightarrow> bool" where
  "isInUpdateFlow state =
     (case state of
        None \<Rightarrow> False
      | Some st \<Rightarrow>
          cs_step st \<in> set [Some ''awaiting_status'', Some ''awaiting_blockers'',
                             Some ''awaiting_blocker_description'', Some ''awaiting_advances''])"

section \<open>Inbound events (handlers/slack-events.js, queued variant)\<close>

definition or_else :: "string option \<Rightarrow> string option \<Rightarrow> string option" where
  \<comment> \<open>\<open>a || b\<close>\<close>
  "or_else a b = (case or_null a of None \<Rightarrow> b | Some s \<Rightarrow> Some s)"

text \<open>
  A button click after \<open>action_id.split('_')\<close>: the type, the project identifier carried by
  the payload (\<open>parts[1]\<close>) and the value.
\<close>

record block_action =
  ba_userId :: string
  ba_actionType :: string
  ba_projectGid :: "string option"
  ba_value :: "string option"

definition status_click_state ::
  "conv_state option \<Rightarrow> string option \<Rightarrow> string option \<Rightarrow> nat \<Rightarrow> conv_state \<Rightarrow> conv_state" where
  "status_click_state currentState projectGid val now =
     (let projectName0 = (case currentState of None \<Rightarrow> None
                          | Some st \<Rightarrow> or_null (cs_currentProjectName st));
          projectPmoId0 = (case currentState of None \<Rightarrow> None
                           | Some st \<Rightarrow> or_null (cs_currentProjectPmoId st));
          pending = (case currentState of None \<Rightarrow> []
                     | Some st \<Rightarrow> (case cs_pendingProjects st of None \<Rightarrow> [] | Some ps \<Rightarrow> ps));
          match = (if length pending > 0
                   then find (\<lambda>p. Some (pp_gid p) = projectGid) pending else None);
          projectName = (case match of None \<Rightarrow> projectName0 | Some m \<Rightarrow> pp_name m);
          projectPmoId = (case match of None \<Rightarrow> projectPmoId0
                          | Some m \<Rightarrow> or_else (pp_pmoId m) projectPmoId0)
      in (\<lambda>item. item\<lparr>cs_step := Some ''awaiting_blockers'',
                        cs_currentProjectGid := projectGid,
                        cs_currentProjectName := projectName,
                        cs_currentProjectPmoId := projectPmoId,
                        cs_status := val,
                        cs_lastPromptAt := Some now\<rparr>))"

text \<open>
  \<open>handleBlockActions\<close> (lines 1016 to 1075). After the \<open>status\<close> branch the chain goes
  on with \<open>else if (actionType === 'blockers') { }\<close> (line 1052), whose body is empty,
  and repeats the same condition at line 1053 in front of the block that would store the
  answer, move the step to \<open>awaiting_advances\<close> and ask for the advances. That block is
  never entered: a blockers click writes nothing and sends nothing. The \<open>timezone\<close> branch
  updates the users table and confirms.
\<close>

definition handleBlockActions :: "faults \<Rightarrow> block_action \<Rightarrow> nat \<Rightarrow> unit io" where
  "handleBlockActions fl action now w =
     (let userId = ba_userId action in
      if ba_actionType action = ''status''
      then then_do (setConversationState fl userId
                      (status_click_state (getConversationState fl userId w)
                         (ba_projectGid action) (ba_value action) now) now)
             (\<lambda>_. result ()) w
      else if ba_actionType action = ''blockers'' then result () w
      else if ba_actionType action = ''timezone''
      then (if f_users fl then (Inl StoreError, w)
            else sendMessage fl userId OnboardingComplete w)
      else result () w)"

definition is_space :: "char \<Rightarrow> bool" where
  "is_space c = (c \<in> set [CHR '' '', CHR 0x09, CHR 0x0A, CHR 0x0B, CHR 0x0C, CHR 0x0D])"

definition trim :: "string \<Rightarrow> string" where
  \<comment> \<open>\<open>text.trim()\<close> on ASCII text\<close>
  "trim s = rev (dropWhile is_space (rev (dropWhile is_space s)))"

text \<open>
  \<open>handleAdvancesText\<close> (lines 541 to 695). The three commands answer and return; the
  users table and the project cache that \<open>reset\<close> and \<open>mis proyectos\<close> consult are
  modelled by their failure only, and each branch ends with one message to the user.

  For every other text the handler reads the conversation state and then calls
  \<open>isSnoozeCommand\<close> (line 589, when the state is in the update flow) or
  \<open>handleSearchFlow\<close> (line 600). Both are declared inside the body of \<open>handleWithAgent\<close>,
  which opens at line 700 and ends only at line 1011, so neither name is bound where
  \<open>handleAdvancesText\<close> runs and the call raises a \<open>ReferenceError\<close> (\<open>exports.handler\<close>
  catches it and answers with status 500). No statement after line 600 is reached: not the
  look-up of a business ID and not the closing of the cycle at lines 655 to 691
  (\<open>saveUpdate\<close>, \<open>getLastUpdates\<close>, \<open>shouldAlert\<close>, the escalation, the confirmation and
  the advance in the queue).
\<close>

definition handleAdvancesText :: "faults \<Rightarrow> string \<Rightarrow> string \<Rightarrow> unit io" where
  "handleAdvancesText fl userId text w =
     (let textLower = toLowerCase (trim text) in
      if textLower = ''ayuda'' \<or> textLower = ''help''
      then sendMessage fl userId HelpReply w
      else if textLower = ''reset'' \<or> textLower = ''reiniciar''
      then (if f_users fl then (Inl StoreError, w) else sendMessage fl userId ResetReply w)
      else if (textLower = ''mis proyectos'' \<or> textLower = ''proyectos'')
              \<and> \<not> includes_str textLower ''cliente''
      then (if f_users fl then (Inl StoreError, w) else sendMessage fl userId ProjectsReply w)
      else
        (let state = getConversationState fl userId w in
         if isInUpdateFlow state
         then (Inl ReferenceError, w)
         else (Inl ReferenceError, w)))"

section \<open>Reminder sweep (handlers/reminder.js)\<close>

text \<open>
  The state that \<open>advanceToNextProject\<close> (lines 76 to 102) writes, or \<open>None\<close> where it
  returns \<open>false\<close>. \<open>pendingProjects\<close> that is not an array counts as empty and
  \<open>currentIndex\<close> that is not a number as 0. The literal written starts with \<open>...state\<close>,
  so it is \<open>state\<close> with the keys that follow set anew. The declaration of the same name
  in slack-events.js (lines 983 to 1009) has the same statements, inside \<open>handleWithAgent\<close>.
\<close>

definition next_project_state :: "conv_state \<Rightarrow> nat \<Rightarrow> conv_state option" where
  "next_project_state state now =
     (let pending = (case cs_pendingProjects state of None \<Rightarrow> [] | Some ps \<Rightarrow> ps);
          currentIndex = (case cs_currentIndex state of None \<Rightarrow> 0 | Some i \<Rightarrow> i);
          nextIndex = currentIndex + 1
      in if nextIndex \<ge> length pending then None
         else
           (let next = pending ! nextIndex
            in Some (state\<lparr>cs_step := Some ''awaiting_status'',
                           cs_currentIndex := Some nextIndex,
                           cs_currentProjectGid := Some (pp_gid next),
                           cs_currentProjectName := pp_name next,
                           cs_currentProjectPmoId := or_null (pp_pmoId next),
                           cs_status := None,
                           cs_hasBlockers := None,
                           cs_blockerDescription := None,
                           cs_lastPromptAt := Some now,
                           cs_snoozeUntil := None\<rparr>)))"

definition advanceToNextProject :: "faults \<Rightarrow> string \<Rightarrow> conv_state \<Rightarrow> nat \<Rightarrow> bool io" where
  "advanceToNextProject fl userId state now =
     (case next_project_state state now of
        None \<Rightarrow> result False
      | Some newState \<Rightarrow>
          then_do (setConversationState fl userId (\<lambda>currentState. newState) now) (\<lambda>_.
          then_do (sendUpdateRequest fl userId (cs_currentProjectName newState)
                     (cs_currentProjectGid newState)) (\<lambda>_.
          result True)))"

definition advance_or_clear :: "faults \<Rightarrow> string \<Rightarrow> conv_state \<Rightarrow> nat \<Rightarrow> bool io" where
  \<comment> \<open>\<open>const advanced = await advanceToNextProject(...); if (!advanced) await clear...\<close>\<close>
  "advance_or_clear fl userId state now =
     then_do (advanceToNextProject fl userId state now) (\<lambda>advanced.
       if \<not> advanced
       then then_do (clearConversationState fl userId now) (\<lambda>_. result advanced)
       else result advanced)"

definition HOUR_MS :: nat where
  "HOUR_MS = 60 * 60 * 1000"

definition remind :: "faults \<Rightarrow> string \<Rightarrow> conv_state \<Rightarrow> unit io" where
  "remind fl slackUserId state =
     (if cs_step state = Some ''awaiting_status''
      then sendUpdateRequest fl slackUserId
             (or_else (cs_currentProjectName state) (Some ''Proyecto''))
             (cs_currentProjectGid state)
      else if cs_step state = Some ''awaiting_blockers''
      then sendMessage fl slackUserId (RemindBlockers (cs_currentProjectName state))
      else if cs_step state = Some ''awaiting_advances''
      then sendMessage fl slackUserId (RemindAdvances (cs_currentProjectName state))
      else result ())"

text \<open>The body of \<open>for (const state of states)\<close>; \<open>continue\<close> is the normal end of the body.\<close>

definition sweep_state :: "faults \<Rightarrow> nat \<Rightarrow> conv_state \<Rightarrow> unit io" where
  "sweep_state fl now state =
     (case (or_null (cs_slackUserId state), or_null (cs_currentProjectGid state)) of
        (Some slackUserId, Some gid) \<Rightarrow>
          if (case cs_snoozeUntil state of None \<Rightarrow> False | Some t \<Rightarrow> t > now) then result ()
          else
            (case cs_lastPromptAt state of
               None \<Rightarrow> result ()
             | Some lastPromptAt \<Rightarrow>
                 if int now - int lastPromptAt < int HOUR_MS then result ()
                 else
                   then_do (getLastUpdates fl (cs_currentProjectGid state) 1) (\<lambda>lastUpdates.
                     if (case lastUpdates of [] \<Rightarrow> False
                         | u # _ \<Rightarrow> u_timestamp u > lastPromptAt)
                     then then_do (advance_or_clear fl slackUserId state now) (\<lambda>_. result ())
                     else
                       then_do (remind fl slackUserId state) (\<lambda>_.
                       then_do (setConversationState fl slackUserId
                                  (\<lambda>item. state\<lparr>cs_lastPromptAt := Some now\<rparr>) now) (\<lambda>_.
                       result ()))))
      | _ \<Rightarrow> result ())"

fun sweep_loop :: "faults \<Rightarrow> nat \<Rightarrow> conv_state list \<Rightarrow> unit io" where
  "sweep_loop fl now [] = result ()"
| "sweep_loop fl now (state # states) =
     then_do (sweep_state fl now state) (\<lambda>_. sweep_loop fl now states)"

text \<open>
  \<open>exports.handler\<close> of the reminder. \<open>getActiveConversationStates\<close> is not among the
  sources: its answer, the list of active states, is a parameter. The handler has no
  \<open>try\<close>: an exception leaves it.
\<close>

definition reminder_handler :: "faults \<Rightarrow> nat \<Rightarrow> conv_state list \<Rightarrow> nat io" where
  "reminder_handler fl now states =
     then_do (sweep_loop fl now states) (\<lambda>_. result (length states))"

section \<open>Scheduled outreach (handlers/scheduled-pulse.js, queued variant)\<close>

record user =
  usr_slackUserId :: string
  usr_timezone :: "string option"
  usr_asanaName :: "string option"

text \<open>
  What \<open>DateTime.now().setZone(timezone)\<close> gives: the local hour, an invalid date (its
  hour is \<open>NaN\<close>, and both comparisons are false) or an exception.
\<close>

datatype clock_reading = Hour nat | InvalidZone | ZoneError

definition isAppropriateTime :: "clock_reading \<Rightarrow> bool" where
  "isAppropriateTime reading =
     (case reading of
        Hour hour \<Rightarrow> hour \<ge> 8 \<and> hour \<le> 10
      | InvalidZone \<Rightarrow> False
      | ZoneError \<Rightarrow> True)"

definition is_digit :: "char \<Rightarrow> bool" where
  "is_digit c = (c \<in> set ''0123456789'')"

definition digit_value :: "char \<Rightarrow> nat" where
  "digit_value c =
     (case map_of (zip ''0123456789'' [0, 1, 2, 3, 4, 5, 6, 7, 8, 9]) c of
        Some d \<Rightarrow> d
      | None \<Rightarrow> 0)"

definition first_digits :: "string \<Rightarrow> string" where
  \<comment> \<open>the match of one or more digits in \<open>String(pmoId)\<close>: the first maximal run of
      digits, empty when there is none\<close>
  "first_digits s = takeWhile is_digit (dropWhile (\<lambda>c. \<not> is_digit c) s)"

definition decimal :: "string \<Rightarrow> nat" where
  \<comment> \<open>the natural number that a string of digits denotes\<close>
  "decimal ds = foldl (\<lambda>n c. 10 * n + digit_value c) 0 ds"

fun bit_length :: "nat \<Rightarrow> nat" where
  "bit_length n = (if n = 0 then 0 else Suc (bit_length (n div 2)))"

declare bit_length.simps [simp del]

text \<open>
  \<open>Number(match[0])\<close> on a string of digits: the double nearest to the decimal number,
  ties going to the even significand. A natural number below \<open>2 ^ 53\<close> is a double; a
  larger one keeps its 53 leading bits, the rest being rounded, and the result is
  \<open>Infinity\<close> when the rounded number reaches \<open>2 ^ 1024\<close>.
\<close>

definition Number_digits :: "string \<Rightarrow> enat" where
  "Number_digits ds =
     (let n = decimal ds in
      if n < 2 ^ 53 then enat n
      else
        (let e = bit_length n - 53;
             q = n div 2 ^ e;
             r = n mod 2 ^ e;
             m = (if 2 * r > 2 ^ e \<or> (2 * r = 2 ^ e \<and> odd q) then q + 1 else q)
         in if m * 2 ^ e \<ge> 2 ^ 1024 then \<infinity> else enat (m * 2 ^ e)))"

text \<open>\<open>parsePmoIdNumber\<close>, with \<open>Number.POSITIVE_INFINITY\<close> as \<open>\<infinity>\<close>.\<close>

definition parsePmoIdNumber :: "string option \<Rightarrow> enat" where
  "parsePmoIdNumber pmoId =
     (case or_null pmoId of
        None \<Rightarrow> \<infinity>
      | Some s \<Rightarrow> if first_digits s = [] then \<infinity> else Number_digits (first_digits s))"

text \<open>
  \<open>projects.filter(...)\<close> followed by \<open>filtered.sort((a, b) => aNum - bNum)\<close>. The
  comparator is consistent (a difference that is \<open>NaN\<close>, of two infinities, counts as 0) and
  the sort of the runtime is stable, so the result is the stable sort by the parsed number.
\<close>

definition build_queue :: "string option list \<Rightarrow> cached_project list \<Rightarrow> cached_project list" where
  "build_queue updatedToday projects =
     sort_key (\<lambda>p. parsePmoIdNumber (p_pmoId p))
       (filter (\<lambda>project. \<not> is_completed project \<and> Some (p_gid project) \<notin> set updatedToday)
          projects)"

definition to_pending :: "cached_project \<Rightarrow> pending_project" where
  "to_pending p =
     \<lparr>pp_gid = p_gid p, pp_name = p_name p, pp_pmoId = or_null (p_pmoId p),
      pp_status = or_null (p_status p)\<rparr>"

definition pulse_state :: "cached_project list \<Rightarrow> nat \<Rightarrow> conv_state \<Rightarrow> conv_state" where
  "pulse_state filtered now =
     (let firstProject = filtered ! 0
      in (\<lambda>item. item\<lparr>cs_step := Some ''awaiting_status'',
                        cs_pendingProjects := Some (map to_pending filtered),
                        cs_currentIndex := Some 0,
                        cs_currentProjectGid := Some (p_gid firstProject),
                        cs_currentProjectName := p_name firstProject,
                        cs_currentProjectPmoId := or_null (p_pmoId firstProject),
                        cs_lastPromptAt := Some now\<rparr>))"

record stats =
  st_usersProcessed :: nat
  st_projectsFound :: nat
  st_requestsSent :: nat
  st_errors :: "(string \<times> error) list"

text \<open>
  The body of \<open>for (const user of users)\<close> with its \<open>try\<close>/\<open>catch\<close>. The local clock and
  \<open>getProjectsByResponsableName\<close> (a store query that is not among the sources) are
  parameters.
\<close>

definition pulse_user ::
  "faults \<Rightarrow> (string option \<Rightarrow> clock_reading) \<Rightarrow> (string \<Rightarrow> cached_project list)
     \<Rightarrow> string option list \<Rightarrow> nat \<Rightarrow> user \<Rightarrow> stats \<times> world \<Rightarrow> stats \<times> world" where
  "pulse_user fl clock getProjectsByResponsableName updatedToday now user sw =
     (case sw of (st0, w) \<Rightarrow>
      (let st = st0\<lparr>st_usersProcessed := st_usersProcessed st0 + 1\<rparr>;
           slackUserId = usr_slackUserId user
       in if \<not> isAppropriateTime (clock (usr_timezone user)) then (st, w)
          else
            (case or_null (usr_asanaName user) of
               None \<Rightarrow> (st, w)
             | Some asanaName \<Rightarrow>
                 if isInUpdateFlow (getConversationState fl slackUserId w) then (st, w)
                 else if f_getProjects fl asanaName
                 then (st\<lparr>st_errors := st_errors st @ [(slackUserId, StoreError)]\<rparr>, w)
                 else
                   (let filtered = build_queue updatedToday (getProjectsByResponsableName asanaName)
                    in if length filtered = 0 then (st, w)
                       else
                         (let st' = st\<lparr>st_projectsFound := st_projectsFound st + length filtered\<rparr>;
                              firstProject = filtered ! 0
                          in case then_do (setConversationState fl slackUserId
                                             (pulse_state filtered now) now) (\<lambda>_.
                                  sendUpdateRequest fl slackUserId (p_name firstProject)
                                    (Some (p_gid firstProject))) w of
                               (Inl e, w') \<Rightarrow>
                                 (st'\<lparr>st_errors := st_errors st' @ [(slackUserId, e)]\<rparr>, w')
                             | (Inr _, w') \<Rightarrow>
                                 (st'\<lparr>st_requestsSent := st_requestsSent st' + 1\<rparr>, w'))))))"

datatype pulse_response = Pulse200 stats | Pulse500

definition scheduled_pulse_handler ::
  "faults \<Rightarrow> (string option \<Rightarrow> clock_reading) \<Rightarrow> (string \<Rightarrow> cached_project list)
     \<Rightarrow> user list \<Rightarrow> nat \<Rightarrow> world \<Rightarrow> pulse_response \<times> world" where
  "scheduled_pulse_handler fl clock getProjectsByResponsableName users now w =
     (if f_scanUsers fl then (Pulse500, w)
      else
        (case getProjectsUpdatedToday fl now w of
           (Inl e, w') \<Rightarrow> (Pulse500, w')
         | (Inr updatedToday, w') \<Rightarrow>
             (case fold (pulse_user fl clock getProjectsByResponsableName updatedToday now) users
                     (\<lparr>st_usersProcessed = 0, st_projectsFound = 0, st_requestsSent = 0,
                       st_errors = []\<rparr>, w') of
                (st, w'') \<Rightarrow> (Pulse200 st, w''))))"

section \<open>Notions used to state the properties of the refresh\<close>

definition is_rate_limited :: "'a api_result \<Rightarrow> bool" where
  "is_rate_limited r = (case r of Ok _ \<Rightarrow> False | Failed e \<Rightarrow> error_status e = Some 429)"

definition delay_after :: "'a api_result \<Rightarrow> nat \<Rightarrow> int" where
  "delay_after r attempt = (case r of Ok _ \<Rightarrow> 0 | Failed e \<Rightarrow> backoff_delay e attempt)"

text \<open>
  What one cycle over \<open>ps\<close> does last to the cache record of \<open>g\<close>: \<open>None\<close> when no record
  of the list touches it, \<open>Some None\<close> for a deletion, \<open>Some (Some p)\<close> for an overwrite.
\<close>

fun last_write :: "cached_project list \<Rightarrow> string \<Rightarrow> cached_project option option" where
  "last_write [] g = None"
| "last_write (p # ps) g =
     (case last_write ps g of
        Some v \<Rightarrow> Some v
      | None \<Rightarrow>
          if p_gid p = g
          then (if is_completed p then Some None
                else if lacks_owner_and_id p then None else Some (Some p))
          else None)"

subsection \<open>Concrete sources\<close>

definition rate_limited_twice :: "nat \<Rightarrow> custom_field list api_result" where
  "rate_limited_twice attempt =
     (if attempt = 0
      then Failed \<lparr>e_status = Some 429, e_response_status = None, e_retry_after = Some 7\<rparr>
      else if attempt = 1
      then Failed \<lparr>e_status = None, e_response_status = Some 429, e_retry_after = None\<rparr>
      else Ok [\<lparr>cf_name = Some ''Status'', cf_display_value = Some ''On Track''\<rparr>,
               \<lparr>cf_name = Some ''Responsable Proyecto'', cf_display_value = Some ''Harold Gomez''\<rparr>,
               \<lparr>cf_name = Some ''PMO ID'', cf_display_value = Some ''PMO-911''\<rparr>])"

definition forbidden :: "nat \<Rightarrow> custom_field list api_result" where
  "forbidden attempt =
     Failed \<lparr>e_status = Some 403, e_response_status = None, e_retry_after = None\<rparr>"

definition always_rate_limited :: "nat \<Rightarrow> 'a api_result" where
  "always_rate_limited attempt =
     Failed \<lparr>e_status = Some 429, e_response_status = None, e_retry_after = None\<rparr>"

definition flaky_detail :: detail_api where
  "flaky_detail gid = (if gid = ''1001'' then rate_limited_twice else forbidden)"

definition two_listed :: "listed_project list" where
  "two_listed =
     [\<lparr>l_gid = ''1002'', l_name = Some ''Soporte'', l_archived = False\<rparr>,
      \<lparr>l_gid = ''1001'', l_name = Some ''Migracion'', l_archived = False\<rparr>]"

definition flaky_source :: source where
  "flaky_source =
     \<lparr>src_workspaces = Ok [\<lparr>ws_gid = ''W1'', ws_first_page = (\<lambda>attempt. Ok two_listed),
                             ws_more_pages = []\<rparr>],
      src_detail = flaky_detail\<rparr>"

definition throttled_listing_source :: source where
  "throttled_listing_source =
     \<lparr>src_workspaces = Ok [\<lparr>ws_gid = ''W1'', ws_first_page = (\<lambda>attempt. Ok two_listed),
                             ws_more_pages = [always_rate_limited]\<rparr>],
      src_detail = flaky_detail\<rparr>"

definition completed_only_source :: source where
  "completed_only_source =
     \<lparr>src_workspaces = Ok [\<lparr>ws_gid = ''W1'',
          ws_first_page =
            (\<lambda>attempt. Ok [\<lparr>l_gid = ''1001'', l_name = Some ''Migracion'', l_archived = False\<rparr>]),
          ws_more_pages = []\<rparr>],
      src_detail =
        (\<lambda>gid attempt. Ok [\<lparr>cf_name = Some ''Status'', cf_display_value = Some ''Completed''\<rparr>,
           \<lparr>cf_name = Some ''Responsable Proyecto'', cf_display_value = Some ''Harold Gomez''\<rparr>])\<rparr>"

definition mixed_projects :: "cached_project list" where
  "mixed_projects =
     [\<lparr>p_gid = ''1001'', p_name = Some ''Migracion'', p_responsable = Some ''Harold Gomez'',
       p_status = Some ''COMPLETED'', p_pmoId = Some ''PMO-911''\<rparr>,
      \<lparr>p_gid = ''1002'', p_name = Some ''Soporte'', p_responsable = None,
       p_status = Some ''On Track'', p_pmoId = None\<rparr>,
      \<lparr>p_gid = ''1003'', p_name = Some ''PoC'', p_responsable = Some ''Harold Gomez'',
       p_status = None, p_pmoId = None\<rparr>]"

definition mixed_detail :: detail_api where
  "mixed_detail gid attempt =
     (if gid = ''1001''
      then Ok [\<lparr>cf_name = Some ''Status'', cf_display_value = Some ''COMPLETED''\<rparr>,
               \<lparr>cf_name = Some ''Responsable Proyecto'', cf_display_value = Some ''Harold Gomez''\<rparr>,
               \<lparr>cf_name = Some ''PMO ID'', cf_display_value = Some ''PMO-911''\<rparr>]
      else if gid = ''1002''
      then Ok [\<lparr>cf_name = Some ''status'', cf_display_value = Some ''On Track''\<rparr>]
      else Ok [\<lparr>cf_name = Some ''Responsable Proyecto'', cf_display_value = Some ''Harold Gomez''\<rparr>])"

definition mixed_source :: source where
  "mixed_source =
     \<lparr>src_workspaces = Ok [\<lparr>ws_gid = ''W1'',
          ws_first_page =
            (\<lambda>attempt. Ok [\<lparr>l_gid = ''1001'', l_name = Some ''Migracion'', l_archived = False\<rparr>,
                           \<lparr>l_gid = ''1000'', l_name = Some ''Viejo'', l_archived = True\<rparr>,
                           \<lparr>l_gid = ''1002'', l_name = Some ''Soporte'', l_archived = False\<rparr>]),
          ws_more_pages =
            [\<lambda>attempt. Ok [\<lparr>l_gid = ''1003'', l_name = Some ''PoC'', l_archived = False\<rparr>]]\<rparr>],
      src_detail = mixed_detail\<rparr>"

definition stale_cache :: cache where
  "stale_cache =
     [''1001'' \<mapsto> \<lparr>p_gid = ''1001'', p_name = Some ''Migracion'',
                     p_responsable = Some ''Harold Gomez'', p_status = Some ''On Track'',
                     p_pmoId = Some ''PMO-911''\<rparr>]"

section \<open>Notions used to state the properties of the conversation\<close>

text \<open>
  Between two states of the store, every conversation item that differs was written with
  the expiry of a write at \<open>now\<close>.
\<close>

definition fresh_writes :: "nat \<Rightarrow> world \<Rightarrow> world \<Rightarrow> bool" where
  "fresh_writes now w w' =
     (\<forall>u. w_conversations w' u = w_conversations w u
          \<or> (\<exists>item. w_conversations w' u = Some item
                \<and> cs_expiresAt item = Some (now div 1000 + 3600)))"

text \<open>
  \<open>advanceToNextProject\<close> called again and again for one user, each call on the state that
  the store holds then and followed by the caller's clear when it returns \<open>false\<close>; the list
  gives the clock reading of each call. The answers of the calls are collected.
\<close>

fun advance_repeatedly :: "faults \<Rightarrow> string \<Rightarrow> nat list \<Rightarrow> world \<Rightarrow> bool list \<times> world" where
  "advance_repeatedly fl userId [] w = ([], w)"
| "advance_repeatedly fl userId (now # nows) w =
     (case getConversationState fl userId w of
        None \<Rightarrow> ([], w)
      | Some state \<Rightarrow>
          (case advance_or_clear fl userId state now w of
             (Inl e, w') \<Rightarrow> ([], w')
           | (Inr advanced, w') \<Rightarrow>
               (case advance_repeatedly fl userId nows w' of
                  (rs, w'') \<Rightarrow> (advanced # rs, w''))))"

definition queue_position :: "pending_project list \<Rightarrow> nat \<Rightarrow> conv_state \<Rightarrow> bool" where
  "queue_position pending i s =
     (cs_pendingProjects s = Some pending \<and> cs_currentIndex s = Some i)"

definition prompted_for :: "pending_project \<Rightarrow> conv_state \<Rightarrow> bool" where
  "prompted_for p s =
     (cs_step s = Some ''awaiting_status''
      \<and> cs_currentProjectGid s = Some (pp_gid p)
      \<and> cs_currentProjectName s = pp_name p
      \<and> cs_currentProjectPmoId s = or_null (pp_pmoId p)
      \<and> cs_status s = None \<and> cs_hasBlockers s = None)"

text \<open>
  The queue invariant of a conversation item: the index is inside the queue and the three
  copies of the active project equal the fields of the queue entry at the index.
\<close>

definition active_matches :: "conv_state \<Rightarrow> bool" where
  "active_matches s =
     (case cs_pendingProjects s of
        None \<Rightarrow> False
      | Some pending \<Rightarrow>
          (case cs_currentIndex s of
             None \<Rightarrow> False
           | Some i \<Rightarrow>
               i < length pending
               \<and> cs_currentProjectGid s = Some (pp_gid (pending ! i))
               \<and> cs_currentProjectName s = pp_name (pending ! i)
               \<and> cs_currentProjectPmoId s = pp_pmoId (pending ! i)))"

definition queue_ok :: "conv_state \<Rightarrow> bool" where
  \<comment> \<open>no queue entry has the empty string as business ID (the outreach stores \<open>pmoId || null\<close>)\<close>
  "queue_ok s =
     (case cs_pendingProjects s of
        None \<Rightarrow> False
      | Some pending \<Rightarrow> list_all (\<lambda>p. pp_pmoId p \<noteq> Some []) pending)"

definition flow_item_ok :: "conv_state option \<Rightarrow> bool" where
  \<comment> \<open>no item, an item outside the flow without a queue (as the cleared marker), or an
      in-flow item with the invariant\<close>
  "flow_item_ok item =
     (case item of
        None \<Rightarrow> True
      | Some s \<Rightarrow>
          (cs_step s = None \<and> cs_pendingProjects s = None)
          \<or> (isInUpdateFlow (Some s) \<and> active_matches s \<and> queue_ok s))"

definition store_ok :: "world \<Rightarrow> bool" where
  "store_ok w = (\<forall>u. flow_item_ok (w_conversations w u))"

definition keeps :: "world \<Rightarrow> world \<Rightarrow> bool" where
  "keeps w w' = (store_ok w \<longrightarrow> store_ok w')"

definition resolves_to_active :: "conv_state \<Rightarrow> string option \<Rightarrow> bool" where
  \<comment> \<open>the first queue entry with the payload's identifier is the entry at the index\<close>
  "resolves_to_active s projectGid =
     (case cs_pendingProjects s of
        None \<Rightarrow> False
      | Some pending \<Rightarrow>
          (case cs_currentIndex s of
             None \<Rightarrow> False
           | Some i \<Rightarrow> find (\<lambda>p. Some (pp_gid p) = projectGid) pending = Some (pending ! i)))"

definition status_click_for_active :: "faults \<Rightarrow> world \<Rightarrow> block_action \<Rightarrow> bool" where
  \<comment> \<open>the handler's reads of the user's item succeed, and the click is for the active
      project of that item\<close>
  "status_click_for_active fl w action =
     (\<not> f_getConversation fl (ba_userId action)
      \<and> (case w_conversations w (ba_userId action) of
           None \<Rightarrow> False
         | Some s \<Rightarrow> resolves_to_active s (ba_projectGid action)))"

text \<open>
  The stores that the handlers reach from a store whose items have neither a step nor a
  queue: by any button click, a status click being one that \<open>status_click_for_active\<close>
  admits, by any free text, by a reminder sweep over items of the store and by any
  scheduled outreach. Apart from the status click, the calls of a transition may fail in
  any way.
\<close>

inductive reachable :: "world \<Rightarrow> bool" where
  started: "\<forall>u. (case w_conversations w u of
                 None \<Rightarrow> True
               | Some s \<Rightarrow> cs_step s = None \<and> cs_pendingProjects s = None)
          \<Longrightarrow> reachable w"
| clicked: "reachable w
          \<Longrightarrow> ba_actionType action = ''status'' \<longrightarrow> status_click_for_active fl w action
          \<Longrightarrow> reachable (snd (handleBlockActions fl action now w))"
| texted: "reachable w \<Longrightarrow> reachable (snd (handleAdvancesText fl userId message w))"
| swept: "reachable w
          \<Longrightarrow> \<forall>s\<in>set states. \<exists>u. w_conversations w u = Some s
          \<Longrightarrow> reachable (snd (reminder_handler fl now states w))"
| pulsed: "reachable w
          \<Longrightarrow> reachable (snd (scheduled_pulse_handler fl clock projs users now w))"

text \<open>
  What one user sees of a scheduled outreach: the messages sent to that user, whether the
  loop body passes its three guards for the user (local hour, configured name, no flow
  under way), and the queue it builds.
\<close>

definition addressed_to :: "string \<Rightarrow> slack_msg \<Rightarrow> bool" where
  "addressed_to u msg =
     (case msg of UpdateRequest channel name gid \<Rightarrow> channel = u | Notice channel n \<Rightarrow> channel = u)"

definition sent_to :: "string \<Rightarrow> world \<Rightarrow> slack_msg list" where
  "sent_to u w = filter (addressed_to u) (w_sent w)"

definition outreach_due :: "(string option \<Rightarrow> clock_reading) \<Rightarrow> world \<Rightarrow> user \<Rightarrow> bool" where
  "outreach_due clock w usr =
     (isAppropriateTime (clock (usr_timezone usr))
      \<and> \<not> falsy (usr_asanaName usr)
      \<and> \<not> isInUpdateFlow (w_conversations w (usr_slackUserId usr)))"

definition outreach_queue ::
  "(string \<Rightarrow> cached_project list) \<Rightarrow> nat \<Rightarrow> world \<Rightarrow> user \<Rightarrow> cached_project list" where
  "outreach_queue projs now w usr =
     build_queue (updated_today now w) (projs (or_empty (usr_asanaName usr)))"

definition after_outreach ::
  "(string option \<Rightarrow> clock_reading) \<Rightarrow> (string \<Rightarrow> cached_project list) \<Rightarrow> user list \<Rightarrow> nat
     \<Rightarrow> world \<Rightarrow> world" where
  "after_outreach clock projs users now w =
     snd (scheduled_pulse_handler no_faults clock projs users now w)"

subsection \<open>Concrete conversations\<close>

definition at_risk_state :: conv_state where
  "at_risk_state =
     empty_state\<lparr>cs_slackUserId := Some ''U1'', cs_step := Some ''awaiting_advances'',
       cs_pendingProjects := Some [\<lparr>pp_gid = ''1001'', pp_name = Some ''Migracion'',
                                    pp_pmoId = Some ''PMO-911'', pp_status = None\<rparr>],
       cs_currentIndex := Some 0, cs_currentProjectGid := Some ''1001'',
       cs_currentProjectName := Some ''Migracion'', cs_currentProjectPmoId := Some ''PMO-911'',
       cs_status := Some ''at_risk'', cs_hasBlockers := Some False,
       cs_lastPromptAt := Some 90000000, cs_startedAt := Some 90000000\<rparr>"

definition earlier_at_risk_update :: project_update where
  "earlier_at_risk_update =
     \<lparr>u_projectGid = Some ''1001'', u_projectName = Some ''Migracion'', u_pmSlackId = ''U1'',
      u_status = Some ''at_risk'', u_advances = ''Proveedor atrasado'',
      u_hasBlockers = Some False, u_blockerDescription = None, u_timestamp = 1000000\<rparr>"

definition second_report_world :: world where
  "second_report_world =
     \<lparr>w_conversations = [''U1'' \<mapsto> at_risk_state], w_updates = [earlier_at_risk_update],
      w_sent = []\<rparr>"

definition stalled_state :: "string \<Rightarrow> string \<Rightarrow> conv_state" where
  "stalled_state userId gid =
     empty_state\<lparr>cs_slackUserId := Some userId, cs_step := Some ''awaiting_blockers'',
       cs_pendingProjects := Some [\<lparr>pp_gid = gid, pp_name = Some ''Migracion'',
                                    pp_pmoId = None, pp_status = None\<rparr>],
       cs_currentIndex := Some 0, cs_currentProjectGid := Some gid,
       cs_currentProjectName := Some ''Migracion'', cs_status := Some ''on_track'',
       cs_lastPromptAt := Some 1000, cs_startedAt := Some 1000\<rparr>"

definition stalled_world :: world where
  "stalled_world =
     \<lparr>w_conversations = [''U1'' \<mapsto> stalled_state ''U1'' ''1001'',
                          ''U2'' \<mapsto> stalled_state ''U2'' ''1002''],
      w_updates = [], w_sent = []\<rparr>"

definition updates_of_1001_unreadable :: faults where
  "updates_of_1001_unreadable = no_faults\<lparr>f_getLastUpdates := (\<lambda>gid. gid = Some ''1001'')\<rparr>"

definition two_project_state :: conv_state where
  "two_project_state =
     empty_state\<lparr>cs_slackUserId := Some ''U1'', cs_step := Some ''awaiting_advances'',
       cs_pendingProjects :=
         Some [\<lparr>pp_gid = ''1001'', pp_name = Some ''Migracion'', pp_pmoId = Some ''PMO-911'',
                pp_status = None\<rparr>,
               \<lparr>pp_gid = ''1002'', pp_name = Some ''Soporte'', pp_pmoId = None,
                pp_status = Some ''On Track''\<rparr>],
       cs_currentIndex := Some 0, cs_currentProjectGid := Some ''1001'',
       cs_currentProjectName := Some ''Migracion'', cs_currentProjectPmoId := Some ''PMO-911'',
       cs_status := Some ''on_track'', cs_hasBlockers := Some False,
       cs_lastPromptAt := Some 1000, cs_startedAt := Some 1000\<rparr>"

definition two_project_world :: world where
  "two_project_world =
     \<lparr>w_conversations = [''U1'' \<mapsto> two_project_state], w_updates = [], w_sent = []\<rparr>"

definition harold :: user where
  "harold =
     \<lparr>usr_slackUserId = ''U1'', usr_timezone = Some ''America/Santiago'',
      usr_asanaName = Some ''Harold Gomez''\<rparr>"

definition ines :: user where
  "ines =
     \<lparr>usr_slackUserId = ''U2'', usr_timezone = Some ''Europe/Madrid'', usr_asanaName = None\<rparr>"

definition harold_projects :: "string \<Rightarrow> cached_project list" where
  "harold_projects asanaName =
     (if asanaName = ''Harold Gomez''
      then [\<lparr>p_gid = ''1003'', p_name = Some ''PoC'', p_responsable = Some ''Harold Gomez'',
              p_status = Some ''On Track'', p_pmoId = None\<rparr>,
            \<lparr>p_gid = ''1001'', p_name = Some ''Migracion'', p_responsable = Some ''Harold Gomez'',
              p_status = Some ''At Risk'', p_pmoId = Some ''PMO-911''\<rparr>,
            \<lparr>p_gid = ''1004'', p_name = Some ''Cierre'', p_responsable = Some ''Harold Gomez'',
              p_status = Some ''Completed'', p_pmoId = Some ''PMO-12''\<rparr>,
            \<lparr>p_gid = ''1002'', p_name = Some ''Soporte'', p_responsable = Some ''Harold Gomez'',
              p_status = None, p_pmoId = Some ''PMO-87''\<rparr>]
      else [])"

definition idle_world :: world where
  "idle_world = \<lparr>w_conversations = Map.empty, w_updates = [], w_sent = []\<rparr>"

definition outreach_world :: world where
  "outreach_world =
     snd (scheduled_pulse_handler no_faults (\<lambda>timezone. Hour 9) harold_projects [harold]
            5000000 idle_world)"

definition click_on_queued :: block_action where
  "click_on_queued =
     \<lparr>ba_userId = ''U1'', ba_actionType = ''status'', ba_projectGid = Some ''1001'',
      ba_value = Some ''on_track''\<rparr>"

definition click_on_unknown :: block_action where
  "click_on_unknown =
     \<lparr>ba_userId = ''U1'', ba_actionType = ''status'', ba_projectGid = Some ''9999'',
      ba_value = Some ''on_track''\<rparr>"

definition click_on_active :: block_action where
  "click_on_active =
     \<lparr>ba_userId = ''U1'', ba_actionType = ''status'', ba_projectGid = Some ''1002'',
      ba_value = Some ''at_risk''\<rparr>"

definition click_no_blockers :: block_action where
  "click_no_blockers =
     \<lparr>ba_userId = ''U1'', ba_actionType = ''blockers'', ba_projectGid = Some ''1002'',
      ba_value = Some ''no''\<rparr>"

section \<open>Properties of the risk detector\<close>

text \<open>
  C1. For every current update and every newest-first list of prior updates,
  \<open>shouldAlert\<close> answers true exactly when the status is \<open>off_track\<close>, or the status is
  \<open>at_risk\<close> and the list has a first element whose status is \<open>at_risk\<close>, or
  \<open>hasBlockers\<close> is true and the status is not \<open>on_track\<close>; otherwise it answers false.
\<close>

theorem shouldAlert_iff:
  "ar_shouldAlert (shouldAlert cur prior) =
     (c_status cur = Some ''off_track''
      \<or> (c_status cur = Some ''at_risk''
          \<and> (case prior of [] \<Rightarrow> False | u # _ \<Rightarrow> u_status u = Some ''at_risk''))
      \<or> (c_hasBlockers cur = Some True \<and> c_status cur \<noteq> Some ''on_track''))"
  by (cases prior) (auto simp: shouldAlert_def truthy_bool_def)

theorem shouldAlert_iff_witness:
  "ar_shouldAlert (shouldAlert \<lparr>c_status = Some ''at_risk'', c_hasBlockers = Some False\<rparr>
      [\<lparr>u_projectGid = Some ''1'', u_projectName = None, u_pmSlackId = ''U1'',
        u_status = Some ''at_risk'', u_advances = ''x'', u_hasBlockers = Some False,
        u_blockerDescription = None, u_timestamp = 5\<rparr>])
   \<and> \<not> ar_shouldAlert (shouldAlert \<lparr>c_status = Some ''at_risk'', c_hasBlockers = Some False\<rparr> [])"
  using shouldAlert_iff [of "\<lparr>c_status = Some ''at_risk'', c_hasBlockers = Some False\<rparr>"
      "[\<lparr>u_projectGid = Some ''1'', u_projectName = None, u_pmSlackId = ''U1'',
        u_status = Some ''at_risk'', u_advances = ''x'', u_hasBlockers = Some False,
        u_blockerDescription = None, u_timestamp = 5\<rparr>]"]
    shouldAlert_iff [of "\<lparr>c_status = Some ''at_risk'', c_hasBlockers = Some False\<rparr>" "[]"]
  by simp

section \<open>Properties of the retry loop and of the bulk listing\<close>

lemma retry_loop_char:
  "retry_loop call retries attempt slept = (res, slept') \<Longrightarrow> attempt \<le> retries \<Longrightarrow>
   \<exists>k. attempt \<le> k \<and> k \<le> retries \<and> res = call k
       \<and> (\<forall>i. attempt \<le> i \<and> i < k \<longrightarrow> is_rate_limited (call i))
       \<and> (k < retries \<longrightarrow> \<not> is_rate_limited (call k))
       \<and> slept' = slept @ map (\<lambda>i. delay_after (call i) i) [attempt..<k]"
proof (induction call retries attempt slept rule: retry_loop.induct)
  case (1 call retries attempt slept)
  show ?case
  proof (cases "call attempt")
    case (Ok r)
    with "1.prems" have "res = call attempt" "slept' = slept" by simp_all
    moreover have "\<not> is_rate_limited (call attempt)"
      using Ok by (simp add: is_rate_limited_def)
    ultimately show ?thesis
      using "1.prems"(2) by (intro exI[of _ attempt]) auto
  next
    case (Failed e)
    show ?thesis
    proof (cases "error_status e = Some 429 \<and> attempt < retries")
      case True
      with Failed "1.prems" have rec:
        "retry_loop call retries (attempt + 1) (slept @ [backoff_delay e attempt]) = (res, slept')"
        by simp
      from True have le: "attempt + 1 \<le> retries" by simp
      from "1.IH"[OF Failed True rec le] obtain k where
        k: "attempt + 1 \<le> k" "k \<le> retries" "res = call k"
           "\<forall>i. attempt + 1 \<le> i \<and> i < k \<longrightarrow> is_rate_limited (call i)"
           "k < retries \<longrightarrow> \<not> is_rate_limited (call k)"
           "slept' = (slept @ [backoff_delay e attempt])
                       @ map (\<lambda>i. delay_after (call i) i) [attempt + 1..<k]"
        by blast
      have rl: "is_rate_limited (call attempt)"
        using Failed True by (simp add: is_rate_limited_def)
      have all: "\<forall>i. attempt \<le> i \<and> i < k \<longrightarrow> is_rate_limited (call i)"
      proof (intro allI impI)
        fix i assume "attempt \<le> i \<and> i < k"
        then show "is_rate_limited (call i)"
          using rl k(4) by (cases "i = attempt") auto
      qed
      have "[attempt..<k] = attempt # [attempt + 1..<k]"
        using k(1) by (simp add: upt_conv_Cons)
      then have "slept' = slept @ map (\<lambda>i. delay_after (call i) i) [attempt..<k]"
        using k(6) Failed by (simp add: delay_after_def)
      with k all show ?thesis by (intro exI[of _ k]) simp
    next
      case False
      with Failed "1.prems" have "res = call attempt" "slept' = slept" by auto
      moreover have "attempt < retries \<longrightarrow> \<not> is_rate_limited (call attempt)"
        using Failed False by (auto simp: is_rate_limited_def)
      ultimately show ?thesis
        using "1.prems"(2) by (intro exI[of _ attempt]) auto
    qed
  qed
qed

lemma retry_from_zero:
  "\<exists>k\<le>retries. fst (retry_loop call retries 0 []) = call k
      \<and> (\<forall>i<k. is_rate_limited (call i))
      \<and> (k < retries \<longrightarrow> \<not> is_rate_limited (call k))
      \<and> snd (retry_loop call retries 0 []) = map (\<lambda>i. delay_after (call i) i) [0..<k]"
proof -
  have "retry_loop call retries 0 [] =
          (fst (retry_loop call retries 0 []), snd (retry_loop call retries 0 []))"
    by simp
  from retry_loop_char[OF this] show ?thesis by auto
qed

lemma backoff_delay_cases:
  "(\<forall>r. e_retry_after e = Some r \<and> 0 < r \<longrightarrow> backoff_delay e attempt = r * 1000)
   \<and> ((\<forall>r. e_retry_after e = Some r \<longrightarrow> r \<le> 0) \<longrightarrow>
        backoff_delay e attempt = 1000 * 2 ^ attempt
        \<and> backoff_delay e (attempt + 1) = 2 * backoff_delay e attempt)"
  by (cases "e_retry_after e") (auto simp: backoff_delay_def)

lemma process_batches_eq:
  "process_batches api projectList =
     map the (filter (\<lambda>r. r \<noteq> None) (map (fetch_detail api) projectList))"
proof (induction api projectList rule: process_batches.induct)
  case (1 api projectList)
  show ?case
  proof (cases "projectList = []")
    case True
    then show ?thesis by simp
  next
    case False
    have split: "projectList = take BATCH_SIZE projectList @ drop BATCH_SIZE projectList"
      by simp
    have "map the (filter (\<lambda>r. r \<noteq> None) (map (fetch_detail api) projectList))
        = map the (filter (\<lambda>r. r \<noteq> None)
                     (map (fetch_detail api) (take BATCH_SIZE projectList)))
          @ map the (filter (\<lambda>r. r \<noteq> None)
                       (map (fetch_detail api) (drop BATCH_SIZE projectList)))"
      by (subst split) (simp only: map_append filter_append)
    with False "1.IH"[OF False refl refl refl] show ?thesis
      by (subst process_batches.simps) (simp add: Let_def)
  qed
qed

lemma fetch_detail_None:
  "fetch_detail api project = None
     \<longleftrightarrow> (\<exists>e. fst (getProjectDetailWithRetry api (l_gid project) 3) = Failed e)"
  by (auto simp: fetch_detail_def split: api_result.splits)

lemma list_pages_failure:
  "page \<in> set pages \<Longrightarrow> fst (getProjectsPageWithRetry page 3) = Failed e \<Longrightarrow>
   \<exists>e'. list_pages pages = Inl e'"
  by (induction pages) (auto split: api_result.splits sum.splits)

lemma all_workspaces_failure:
  "w \<in> set ws \<Longrightarrow> list_pages (ws_first_page w # ws_more_pages w) = Inl e \<Longrightarrow>
   \<exists>e'. all_workspaces api ws = Inl e'"
  by (induction ws) (auto split: sum.splits)

lemma listing_failure_fails_cycle:
  assumes "src_workspaces src = Ok wss" and "w \<in> set wss"
    and "page \<in> set (ws_first_page w # ws_more_pages w)"
    and "fst (getProjectsPageWithRetry page 3) = Failed e"
  shows "cache_refresh_handler src c = (Http500, c)"
proof -
  from list_pages_failure[OF assms(3,4)] obtain e1 where
    "list_pages (ws_first_page w # ws_more_pages w) = Inl e1" by blast
  from all_workspaces_failure[OF assms(2) this] obtain e2 where
    "all_workspaces (src_detail src) wss = Inl e2" by blast
  with assms(1) show ?thesis
    by (simp add: cache_refresh_handler_def getAllActiveProjectsWithResponsable_def)
qed

lemmas source_eval =
  getAllActiveProjectsWithResponsable_def getProjectsPageWithRetry_def
  getProjectDetailWithRetry_def fetch_detail_def find_field_def is_status_field_def
  is_responsable_field_def is_pmo_id_field_def falsy_def or_null_def or_empty_def
  toLowerCase_def toLowerChar_def is_completed_def lacks_owner_and_id_def
  deleteProjectCache_def upsertProjectCache_def BATCH_SIZE_def error_status_def
  backoff_delay_def

text \<open>
  C7. Both retrying calls (project detail, workspace listing page) answer with the
  response of attempt \<open>k\<close> for some \<open>k \<le> 3\<close>: every earlier attempt was answered 429 and
  was followed by one sleep, and attempt \<open>k\<close> is either not a 429 or is the fourth call, so
  a 429 is retried at most three times and any other error, or the 429 of the fourth call,
  is what the caller gets. The sleep after attempt \<open>i\<close> is the positive \<open>retry-after\<close> in
  milliseconds when the error carries one, and otherwise \<open>1000 * 2 ^ i\<close>, which doubles
  with each attempt. In the batch loop the projects kept are exactly those whose detail
  call did not fail, in their order; a listing page that fails makes the whole cycle
  answer 500 and leaves the cache as it was.
\<close>

theorem rate_limit_retry:
  "(\<exists>k\<le>3. fst (getProjectDetailWithRetry api gid 3) = api gid k
        \<and> (\<forall>i<k. is_rate_limited (api gid i))
        \<and> (k < 3 \<longrightarrow> \<not> is_rate_limited (api gid k))
        \<and> snd (getProjectDetailWithRetry api gid 3)
            = map (\<lambda>i. delay_after (api gid i) i) [0..<k])
   \<and> (\<exists>k\<le>3. fst (getProjectsPageWithRetry page 3) = page k
        \<and> (\<forall>i<k. is_rate_limited (page i))
        \<and> (k < 3 \<longrightarrow> \<not> is_rate_limited (page k))
        \<and> snd (getProjectsPageWithRetry page 3)
            = map (\<lambda>i. delay_after (page i) i) [0..<k])
   \<and> (\<forall>r. e_retry_after e = Some r \<and> 0 < r \<longrightarrow> backoff_delay e attempt = r * 1000)
   \<and> ((\<forall>r. e_retry_after e = Some r \<longrightarrow> r \<le> 0) \<longrightarrow>
        backoff_delay e attempt = 1000 * 2 ^ attempt
        \<and> backoff_delay e (attempt + 1) = 2 * backoff_delay e attempt)
   \<and> process_batches api projectList
        = map the (filter (\<lambda>r. r \<noteq> None) (map (fetch_detail api) projectList))
   \<and> (fetch_detail api project = None
        \<longleftrightarrow> (\<exists>e. fst (getProjectDetailWithRetry api (l_gid project) 3) = Failed e))
   \<and> (\<forall>wss w pg err. src_workspaces src = Ok wss \<and> w \<in> set wss
         \<and> pg \<in> set (ws_first_page w # ws_more_pages w)
         \<and> fst (getProjectsPageWithRetry pg 3) = Failed err
        \<longrightarrow> cache_refresh_handler src c = (Http500, c))"
proof -
  have detail: "\<exists>k\<le>3. fst (getProjectDetailWithRetry api gid 3) = api gid k
        \<and> (\<forall>i<k. is_rate_limited (api gid i))
        \<and> (k < 3 \<longrightarrow> \<not> is_rate_limited (api gid k))
        \<and> snd (getProjectDetailWithRetry api gid 3)
            = map (\<lambda>i. delay_after (api gid i) i) [0..<k]"
    unfolding getProjectDetailWithRetry_def by (rule retry_from_zero)
  have listing: "\<exists>k\<le>3. fst (getProjectsPageWithRetry page 3) = page k
        \<and> (\<forall>i<k. is_rate_limited (page i))
        \<and> (k < 3 \<longrightarrow> \<not> is_rate_limited (page k))
        \<and> snd (getProjectsPageWithRetry page 3)
            = map (\<lambda>i. delay_after (page i) i) [0..<k]"
    unfolding getProjectsPageWithRetry_def by (rule retry_from_zero)
  have cycle: "\<forall>wss w pg err. src_workspaces src = Ok wss \<and> w \<in> set wss
         \<and> pg \<in> set (ws_first_page w # ws_more_pages w)
         \<and> fst (getProjectsPageWithRetry pg 3) = Failed err
        \<longrightarrow> cache_refresh_handler src c = (Http500, c)"
    using listing_failure_fails_cycle by blast
  from backoff_delay_cases[of e attempt] have
    d1: "\<forall>r. e_retry_after e = Some r \<and> 0 < r \<longrightarrow> backoff_delay e attempt = r * 1000"
    and d2: "(\<forall>r. e_retry_after e = Some r \<longrightarrow> r \<le> 0) \<longrightarrow>
        backoff_delay e attempt = 1000 * 2 ^ attempt
        \<and> backoff_delay e (attempt + 1) = 2 * backoff_delay e attempt"
    by blast+
  show ?thesis
    by (intro conjI detail listing d1 d2 cycle process_batches_eq fetch_detail_None)
qed

theorem rate_limit_retry_witness:
  "getProjectDetailWithRetry flaky_detail ''1001'' 3 = (rate_limited_twice 2, [7000, 2000])
   \<and> fst (getProjectsPageWithRetry always_rate_limited 3)
       = Failed \<lparr>e_status = Some 429, e_response_status = None, e_retry_after = None\<rparr>
   \<and> snd (getProjectsPageWithRetry always_rate_limited 3) = [1000, 2000, 4000]
   \<and> process_batches flaky_detail two_listed =
       [\<lparr>p_gid = ''1001'', p_name = Some ''Migracion'', p_responsable = Some ''Harold Gomez'',
         p_status = Some ''On Track'', p_pmoId = Some ''PMO-911''\<rparr>]
   \<and> fetch_detail flaky_detail (two_listed ! 0) = None
   \<and> cache_refresh_handler throttled_listing_source stale_cache = (Http500, stale_cache)"
proof -
  note inst = rate_limit_retry[of flaky_detail "''1001''" always_rate_limited
      "\<lparr>e_status = Some 429, e_response_status = None, e_retry_after = Some 7\<rparr>" 0
      two_listed "two_listed ! 0" throttled_listing_source stale_cache]
  have page: "fst (getProjectsPageWithRetry always_rate_limited 3)
       = Failed \<lparr>e_status = Some 429, e_response_status = None, e_retry_after = None\<rparr>"
    by (simp add: always_rate_limited_def source_eval)
  have "src_workspaces throttled_listing_source
          = Ok [\<lparr>ws_gid = ''W1'', ws_first_page = (\<lambda>attempt. Ok two_listed),
                 ws_more_pages = [always_rate_limited]\<rparr>]"
    by (simp add: throttled_listing_source_def)
  moreover from inst have "\<forall>wss w pg err.
      src_workspaces throttled_listing_source = Ok wss \<and> w \<in> set wss
      \<and> pg \<in> set (ws_first_page w # ws_more_pages w)
      \<and> fst (getProjectsPageWithRetry pg 3) = Failed err
      \<longrightarrow> cache_refresh_handler throttled_listing_source stale_cache = (Http500, stale_cache)"
    by (elim conjE)
  ultimately have cycle:
    "cache_refresh_handler throttled_listing_source stale_cache = (Http500, stale_cache)"
    using page by fastforce
  have d: "getProjectDetailWithRetry flaky_detail ''1001'' 3 = (rate_limited_twice 2, [7000, 2000])"
    by (simp add: flaky_detail_def rate_limited_twice_def source_eval)
  have s: "snd (getProjectsPageWithRetry always_rate_limited 3) = [1000, 2000, 4000]"
    by (simp add: always_rate_limited_def source_eval)
  have f: "fetch_detail flaky_detail (two_listed ! 0) = None"
    by (simp add: flaky_detail_def two_listed_def forbidden_def source_eval)
  have b: "process_batches flaky_detail two_listed =
       [\<lparr>p_gid = ''1001'', p_name = Some ''Migracion'', p_responsable = Some ''Harold Gomez'',
         p_status = Some ''On Track'', p_pmoId = Some ''PMO-911''\<rparr>]"
    by (simp add: flaky_detail_def two_listed_def forbidden_def rate_limited_twice_def
        source_eval)
  show ?thesis by (intro conjI d page s b f cycle)
qed

section \<open>Properties of the cache refresh\<close>

lemma refresh_loop_cache:
  "fst (refresh_loop ps (c, u, d, s)) g = (case last_write ps g of None \<Rightarrow> c g | Some v \<Rightarrow> v)"
proof (induction ps arbitrary: c u d s)
  case Nil
  then show ?case by simp
next
  case (Cons p ps)
  show ?case
    by (cases "last_write ps g")
       (simp_all add: Cons.IH deleteProjectCache_def upsertProjectCache_def)
qed

lemma refresh_loop_counts:
  "refresh_loop ps (c, u, d, s) = (c', u', d', s') \<Longrightarrow>
     u' = u + length (filter (\<lambda>p. \<not> is_completed p \<and> \<not> lacks_owner_and_id p) ps)
   \<and> d' = d + length (filter is_completed ps)
   \<and> s' = s + length (filter (\<lambda>p. \<not> is_completed p \<and> lacks_owner_and_id p) ps)"
proof (induction ps arbitrary: c u d s)
  case Nil
  then show ?case by simp
next
  case (Cons p ps)
  consider (del) "is_completed p"
    | (skip) "\<not> is_completed p" "lacks_owner_and_id p"
    | (ups) "\<not> is_completed p" "\<not> lacks_owner_and_id p"
    by blast
  then show ?case
  proof cases
    case del
    with Cons.prems have
      "refresh_loop ps (deleteProjectCache (p_gid p) c, u, d + 1, s) = (c', u', d', s')"
      by simp
    from Cons.IH[OF this] del show ?thesis by simp
  next
    case skip
    with Cons.prems have "refresh_loop ps (c, u, d, s + 1) = (c', u', d', s')" by simp
    from Cons.IH[OF this] skip show ?thesis by simp
  next
    case ups
    with Cons.prems have
      "refresh_loop ps (upsertProjectCache p c, u + 1, d, s) = (c', u', d', s')"
      by simp
    from Cons.IH[OF this] ups show ?thesis by simp
  qed
qed

lemma refresh_loop_idem:
  "fst (refresh_loop ps (fst (refresh_loop ps (c, u, d, s)), u2, d2, s2))
     = fst (refresh_loop ps (c, u, d, s))"
  by (rule ext) (simp add: refresh_loop_cache split: option.splits)

lemma last_write_notin: "g \<notin> p_gid ` set ps \<Longrightarrow> last_write ps g = None"
  by (induction ps) auto

lemma last_write_distinct:
  "distinct (map p_gid ps) \<Longrightarrow> p \<in> set ps \<Longrightarrow>
   last_write ps (p_gid p) =
     (if is_completed p then Some None
      else if lacks_owner_and_id p then None else Some (Some p))"
proof (induction ps)
  case Nil
  then show ?case by simp
next
  case (Cons q ps)
  show ?case
  proof (cases "p \<in> set ps")
    case True
    with Cons have "p_gid q \<noteq> p_gid p" by auto
    with Cons True show ?thesis by (auto split: option.splits)
  next
    case False
    with Cons have "p = q" "p_gid p \<notin> p_gid ` set ps" by auto
    then show ?thesis by (simp add: last_write_notin)
  qed
qed

lemma handler_summary:
  assumes "getAllActiveProjectsWithResponsable src = Inr ps"
  shows "fst (cache_refresh_handler src c) =
      Http200 \<lparr>s_totalProjects = length ps,
               s_updated = length (filter (\<lambda>p. \<not> is_completed p \<and> \<not> lacks_owner_and_id p) ps),
               s_deleted = length (filter is_completed ps),
               s_skipped = length (filter (\<lambda>p. \<not> is_completed p \<and> lacks_owner_and_id p) ps)\<rparr>"
proof -
  obtain c' u d s where run: "refresh_loop ps (c, 0, 0, 0) = (c', u, d, s)"
    by (cases "refresh_loop ps (c, 0, 0, 0)") auto
  from refresh_loop_counts[OF run] run assms show ?thesis
    by (simp add: cache_refresh_handler_def)
qed

lemma handler_cache:
  assumes "getAllActiveProjectsWithResponsable src = Inr ps"
  shows "snd (cache_refresh_handler src c) = fst (refresh_loop ps (c, 0, 0, 0))"
  using assms by (simp add: cache_refresh_handler_def split: prod.splits)

lemma handler_failure:
  assumes "getAllActiveProjectsWithResponsable src = Inl e"
  shows "cache_refresh_handler src c = (Http500, c)"
  using assms by (simp add: cache_refresh_handler_def)

text \<open>
  C5. In one refresh cycle over the projects \<open>ps\<close> that the source delivered, the summary
  counts as deleted the records whose status is \<open>completed\<close> in any letter case, as skipped
  the others that have neither owner nor business ID, and as updated the rest. When the
  list has one record per project, the cache afterwards holds no record for a completed
  project whatever it held before, holds what it held before for a skipped one, and holds
  the new record for an updated one.
\<close>

theorem cache_refresh_classification:
  assumes "getAllActiveProjectsWithResponsable src = Inr ps"
    and "cache_refresh_handler src c = (r, c')"
  shows "r = Http200 \<lparr>s_totalProjects = length ps,
               s_updated = length (filter (\<lambda>p. \<not> is_completed p \<and> \<not> lacks_owner_and_id p) ps),
               s_deleted = length (filter is_completed ps),
               s_skipped = length (filter (\<lambda>p. \<not> is_completed p \<and> lacks_owner_and_id p) ps)\<rparr>
     \<and> (distinct (map p_gid ps) \<longrightarrow>
          (\<forall>p\<in>set ps. c' (p_gid p) =
             (if is_completed p then None
              else if lacks_owner_and_id p then c (p_gid p) else Some p)))"
proof -
  from handler_summary[OF assms(1), of c] assms(2) have summary: "r = Http200 \<lparr>s_totalProjects = length ps,
               s_updated = length (filter (\<lambda>p. \<not> is_completed p \<and> \<not> lacks_owner_and_id p) ps),
               s_deleted = length (filter is_completed ps),
               s_skipped = length (filter (\<lambda>p. \<not> is_completed p \<and> lacks_owner_and_id p) ps)\<rparr>"
    by simp
  from handler_cache[OF assms(1), of c] assms(2) have c': "c' = fst (refresh_loop ps (c, 0, 0, 0))"
    by simp
  have "c' (p_gid p) =
          (if is_completed p then None
           else if lacks_owner_and_id p then c (p_gid p) else Some p)"
    if "distinct (map p_gid ps)" "p \<in> set ps" for p
    unfolding c' refresh_loop_cache using last_write_distinct[OF that] by simp
  with summary show ?thesis by blast
qed

theorem cache_refresh_classification_witness:
  "fst (cache_refresh_handler mixed_source stale_cache)
     = Http200 \<lparr>s_totalProjects = 3, s_updated = 1, s_deleted = 1, s_skipped = 1\<rparr>
   \<and> stale_cache ''1001'' \<noteq> None
   \<and> snd (cache_refresh_handler mixed_source stale_cache) ''1001'' = None
   \<and> snd (cache_refresh_handler mixed_source stale_cache) ''1002'' = None
   \<and> snd (cache_refresh_handler mixed_source stale_cache) ''1003'' = Some (mixed_projects ! 2)"
proof -
  have ps: "getAllActiveProjectsWithResponsable mixed_source = Inr mixed_projects"
    by (simp add: mixed_source_def mixed_projects_def mixed_detail_def source_eval)
  have run: "cache_refresh_handler mixed_source stale_cache
      = (fst (cache_refresh_handler mixed_source stale_cache),
         snd (cache_refresh_handler mixed_source stale_cache))"
    by simp
  have d: "distinct (map p_gid mixed_projects)"
    by (simp add: mixed_projects_def)
  from cache_refresh_classification[OF ps run] d
  have "fst (cache_refresh_handler mixed_source stale_cache) =
      Http200 \<lparr>s_totalProjects = length mixed_projects,
               s_updated = length (filter (\<lambda>p. \<not> is_completed p \<and> \<not> lacks_owner_and_id p) mixed_projects),
               s_deleted = length (filter is_completed mixed_projects),
               s_skipped = length (filter (\<lambda>p. \<not> is_completed p \<and> lacks_owner_and_id p) mixed_projects)\<rparr>"
    and "\<forall>p\<in>set mixed_projects.
           snd (cache_refresh_handler mixed_source stale_cache) (p_gid p) =
             (if is_completed p then None
              else if lacks_owner_and_id p then stale_cache (p_gid p) else Some p)"
    by blast+
  then show ?thesis
    by (simp add: mixed_projects_def stale_cache_def is_completed_def lacks_owner_and_id_def
        falsy_def or_null_def or_empty_def toLowerCase_def toLowerChar_def)
qed

text \<open>
  C6, as stated, at a source that lists one project whose status is \<open>Completed\<close>: the
  second of two runs in succession reports \<open>deleted: 1\<close>, not \<open>0\<close>, because the counter is
  incremented for every completed project listed, whether or not the cache held it.
\<close>

theorem second_run_deleted_counterexample:
  "fst (cache_refresh_handler completed_only_source
          (snd (cache_refresh_handler completed_only_source Map.empty)))
     = Http200 \<lparr>s_totalProjects = 1, s_updated = 0, s_deleted = 1, s_skipped = 0\<rparr>"
  by (simp add: cache_refresh_handler_def completed_only_source_def source_eval)

text \<open>
  C6, amended. Two runs in succession against the same source leave the same cache
  after the second as after the first and answer the same: on success the summary of both
  counts as deleted the listed projects whose status is completed, which is zero only when
  the source lists none.
\<close>

theorem cache_refresh_idempotent:
  assumes "cache_refresh_handler src c0 = (r1, c1)"
    and "cache_refresh_handler src c1 = (r2, c2)"
  shows "c2 = c1 \<and> r2 = r1
     \<and> (\<forall>ps. getAllActiveProjectsWithResponsable src = Inr ps \<longrightarrow>
          (\<exists>sm. r2 = Http200 sm \<and> s_deleted sm = length (filter is_completed ps)))"
proof (cases "getAllActiveProjectsWithResponsable src")
  case (Inl e)
  from handler_failure[OF Inl] assms show ?thesis by (simp add: Inl)
next
  case (Inr ps)
  from handler_cache[OF Inr, of c0] assms(1) have c1: "c1 = fst (refresh_loop ps (c0, 0, 0, 0))"
    by simp
  from handler_cache[OF Inr, of c1] assms(2) have c2: "c2 = fst (refresh_loop ps (c1, 0, 0, 0))"
    by simp
  have same_cache: "c2 = c1" unfolding c2 unfolding c1 by (rule refresh_loop_idem)
  from handler_summary[OF Inr, of c0] handler_summary[OF Inr, of c1] assms
  have same_answer: "r2 = r1"
    and deleted: "\<exists>sm. r2 = Http200 sm \<and> s_deleted sm = length (filter is_completed ps)"
    by simp_all
  from same_cache same_answer deleted Inr show ?thesis by simp
qed

theorem cache_refresh_idempotent_witness:
  "snd (cache_refresh_handler mixed_source (snd (cache_refresh_handler mixed_source stale_cache)))
     = snd (cache_refresh_handler mixed_source stale_cache)
   \<and> fst (cache_refresh_handler mixed_source (snd (cache_refresh_handler mixed_source stale_cache)))
     = fst (cache_refresh_handler mixed_source stale_cache)
   \<and> fst (cache_refresh_handler mixed_source stale_cache)
     = Http200 \<lparr>s_totalProjects = 3, s_updated = 1, s_deleted = 1, s_skipped = 1\<rparr>"
proof -
  have run1: "cache_refresh_handler mixed_source stale_cache
      = (fst (cache_refresh_handler mixed_source stale_cache),
         snd (cache_refresh_handler mixed_source stale_cache))"
    by simp
  have run2: "cache_refresh_handler mixed_source (snd (cache_refresh_handler mixed_source stale_cache))
      = (fst (cache_refresh_handler mixed_source (snd (cache_refresh_handler mixed_source stale_cache))),
         snd (cache_refresh_handler mixed_source (snd (cache_refresh_handler mixed_source stale_cache))))"
    by simp
  have first: "fst (cache_refresh_handler mixed_source stale_cache)
     = Http200 \<lparr>s_totalProjects = 3, s_updated = 1, s_deleted = 1, s_skipped = 1\<rparr>"
    by (simp add: cache_refresh_handler_def mixed_source_def mixed_detail_def stale_cache_def
        source_eval)
  from cache_refresh_idempotent[OF run1 run2] first show ?thesis by blast
qed

section \<open>Properties of the conversation store\<close>

lemma fresh_writes_refl: "fresh_writes now w w"
  by (simp add: fresh_writes_def)

lemma fresh_writes_same:
  "w_conversations w' = w_conversations w \<Longrightarrow> fresh_writes now w w'"
  by (simp add: fresh_writes_def)

lemma fresh_writes_trans:
  "fresh_writes now w w' \<Longrightarrow> fresh_writes now w' w'' \<Longrightarrow> fresh_writes now w w''"
  unfolding fresh_writes_def by metis

lemma fresh_then_do:
  assumes "fresh_writes now w (snd (m w))"
    and "\<And>x w1. fresh_writes now w1 (snd (f x w1))"
  shows "fresh_writes now w (snd (then_do m f w))"
proof (cases "m w")
  case (Pair r w1)
  show ?thesis
  proof (cases r)
    case (Inl e)
    with Pair assms(1) show ?thesis by (simp add: then_do_def)
  next
    case (Inr x)
    with Pair have "then_do m f w = f x w1" by (simp add: then_do_def)
    moreover from Pair assms(1) have "fresh_writes now w w1" by simp
    ultimately show ?thesis using assms(2)[of w1 x] by (auto intro: fresh_writes_trans)
  qed
qed

lemma fresh_result: "fresh_writes now w (snd (result x w))"
  by (simp add: result_def fresh_writes_refl)

lemma conv_post: "w_conversations (snd (post fl channel msg w)) = w_conversations w"
  by (simp add: post_def)

lemma fresh_post: "fresh_writes now w (snd (post fl channel msg w))"
  by (rule fresh_writes_same) (rule conv_post)

lemma fresh_sendUpdateRequest:
  "fresh_writes now w (snd (sendUpdateRequest fl u name gid w))"
  by (simp add: sendUpdateRequest_def fresh_post)

lemma fresh_sendMessage: "fresh_writes now w (snd (sendMessage fl u text w))"
  by (simp add: sendMessage_def fresh_post)

lemma fresh_getLastUpdates: "fresh_writes now w (snd (getLastUpdates fl gid n w))"
  by (rule fresh_writes_same) (simp add: getLastUpdates_def)

lemma fresh_dynamo_set:
  "fresh_writes now w (snd (dynamo_setConversationState fl u s now w))"
  by (simp add: dynamo_setConversationState_def fresh_writes_def stamp_def)

lemma fresh_set: "fresh_writes now w (snd (setConversationState fl u patch now w))"
  unfolding setConversationState_def Let_def
  by (intro fresh_then_do fresh_dynamo_set fresh_result)

lemma fresh_clear: "fresh_writes now w (snd (clearConversationState fl u now w))"
  by (simp add: clearConversationState_def dynamo_clearConversationState_def fresh_dynamo_set)

lemma fresh_advance: "fresh_writes now w (snd (advanceToNextProject fl u s now w))"
  unfolding advanceToNextProject_def
  by (cases "next_project_state s now")
     (auto intro!: fresh_then_do fresh_set fresh_sendUpdateRequest fresh_result)

lemma fresh_advance_or_clear: "fresh_writes now w (snd (advance_or_clear fl u s now w))"
  unfolding advance_or_clear_def
  by (intro fresh_then_do fresh_advance)
     (auto intro!: fresh_then_do fresh_clear fresh_result)

lemma fresh_handleBlockActions: "fresh_writes now w (snd (handleBlockActions fl action now w))"
  unfolding handleBlockActions_def Let_def
  by (auto intro!: fresh_then_do fresh_set fresh_sendMessage fresh_result
      simp: fresh_writes_refl)

lemma handleAdvancesText_store:
  "w_conversations (snd (handleAdvancesText fl u message w)) = w_conversations w
   \<and> w_updates (snd (handleAdvancesText fl u message w)) = w_updates w"
  by (simp add: handleAdvancesText_def Let_def sendMessage_def post_def)

lemma fresh_handleAdvancesText:
  "fresh_writes now w (snd (handleAdvancesText fl u message w))"
  by (rule fresh_writes_same) (simp add: handleAdvancesText_store)

lemma narrative_raises_reference_error:
  assumes "toLowerCase (trim message)
             \<notin> set [''ayuda'', ''help'', ''reset'', ''reiniciar'', ''mis proyectos'',
                     ''proyectos'']"
  shows "handleAdvancesText fl u message w = (Inl ReferenceError, w)"
  using assms by (simp add: handleAdvancesText_def Let_def)

lemma fresh_remind: "fresh_writes now w (snd (remind fl u s w))"
  by (simp add: remind_def fresh_sendUpdateRequest fresh_sendMessage fresh_result)

lemma fresh_sweep_state: "fresh_writes now w (snd (sweep_state fl now s w))"
  unfolding sweep_state_def
  by (auto intro!: fresh_then_do fresh_getLastUpdates fresh_advance_or_clear fresh_remind
      fresh_set fresh_result split: option.splits list.splits)

lemma fresh_sweep_loop: "fresh_writes now w (snd (sweep_loop fl now states w))"
  by (induction states arbitrary: w)
     (auto intro!: fresh_then_do fresh_sweep_state fresh_result)

lemma fresh_reminder_handler:
  "fresh_writes now w (snd (reminder_handler fl now states w))"
  unfolding reminder_handler_def
  by (intro fresh_then_do fresh_sweep_loop fresh_result)

lemma fresh_pulse_user:
  "fresh_writes now w (snd (pulse_user fl clock projs today now usr (st, w)))"
proof -
  have step: "fresh_writes now w
      (snd (then_do (setConversationState fl u (pulse_state q now) now)
              (\<lambda>_. sendUpdateRequest fl u name gid) w))" for u q name gid
    by (intro fresh_then_do fresh_set fresh_sendUpdateRequest)
  show ?thesis
    unfolding pulse_user_def Let_def
    using step
    by (auto simp: fresh_writes_refl split: option.splits prod.splits sum.splits)
       (metis snd_conv)+
qed

lemma fresh_pulse_fold:
  "fresh_writes now w (snd (fold (pulse_user fl clock projs today now) users (st, w)))"
proof (induction users arbitrary: st w)
  case Nil
  then show ?case by (simp add: fresh_writes_refl)
next
  case (Cons usr users)
  obtain st1 w1 where one: "pulse_user fl clock projs today now usr (st, w) = (st1, w1)"
    by (cases "pulse_user fl clock projs today now usr (st, w)") auto
  from fresh_pulse_user[of now w fl clock projs today usr st] one
  have "fresh_writes now w w1" by simp
  with Cons.IH[of w1 st1] one show ?case by (auto intro: fresh_writes_trans)
qed

lemma fresh_pulse_handler:
  "fresh_writes now w (snd (scheduled_pulse_handler fl clock projs users now w))"
proof -
  have "snd (getProjectsUpdatedToday fl now w) = w"
    by (simp add: getProjectsUpdatedToday_def)
  then show ?thesis
    unfolding scheduled_pulse_handler_def
    using fresh_pulse_fold[of now w fl clock projs _ users]
    by (auto simp: fresh_writes_refl split: prod.splits sum.splits) (metis snd_conv)+
qed

lemma set_writes_item:
  assumes "\<not> f_putConversation fl u"
  shows "\<exists>item. w_conversations (snd (setConversationState fl u patch now w)) u = Some item
           \<and> cs_expiresAt item = Some (now div 1000 + 3600)"
  using assms
  by (simp add: setConversationState_def Let_def then_do_def dynamo_setConversationState_def
      result_def stamp_def)

lemma clear_writes_item:
  assumes "\<not> f_putConversation fl u"
  shows "w_conversations (snd (clearConversationState fl u now w)) u
           = Some (stamp cleared_marker now)
         \<and> cs_expiresAt (stamp cleared_marker now) = Some (now div 1000 + 3600)"
  using assms
  by (simp add: clearConversationState_def dynamo_clearConversationState_def
      dynamo_setConversationState_def stamp_def)

text \<open>
  C10. Every write of a conversation item carries the expiry \<open>now div 1000 + 3600\<close>, one
  hour in epoch seconds after the clock reading \<open>now\<close> (in milliseconds) of the write:
  the two store functions and the state manager's write and clear set it whenever the put
  goes through, also over an expiry that the state brought along, and in every handler
  (button click, free text, reminder sweep, scheduled outreach) each item that differs
  afterwards carries it. The window so restarts at each write.
\<close>

theorem conversation_expiry:
  "fresh_writes now w (snd (dynamo_setConversationState fl u s now w))
   \<and> fresh_writes now w (snd (setConversationState fl u patch now w))
   \<and> fresh_writes now w (snd (clearConversationState fl u now w))
   \<and> (\<not> f_putConversation fl u \<longrightarrow>
        (\<exists>item. w_conversations (snd (setConversationState fl u patch now w)) u = Some item
           \<and> cs_expiresAt item = Some (now div 1000 + 3600))
        \<and> w_conversations (snd (clearConversationState fl u now w)) u
            = Some (stamp cleared_marker now)
        \<and> cs_expiresAt (stamp cleared_marker now) = Some (now div 1000 + 3600))
   \<and> fresh_writes now w (snd (handleBlockActions fl action now w))
   \<and> fresh_writes now w (snd (handleAdvancesText fl u text w))
   \<and> fresh_writes now w (snd (reminder_handler fl now states w))
   \<and> fresh_writes now w (snd (scheduled_pulse_handler fl clock projs users now w))"
  using set_writes_item[of fl u patch now w] clear_writes_item[of fl u now w]
  by (intro conjI impI fresh_dynamo_set fresh_set fresh_clear fresh_handleBlockActions
      fresh_handleAdvancesText fresh_reminder_handler fresh_pulse_handler) blast+


section \<open>Properties of the project queue\<close>

lemma set_no_faults:
  "setConversationState no_faults u patch now w =
     (Inr ((patch (case w_conversations w u of None \<Rightarrow> empty_state | Some st \<Rightarrow> st))
             \<lparr>cs_slackUserId := Some u,
              cs_startedAt :=
                (case cs_startedAt (case w_conversations w u of None \<Rightarrow> empty_state
                                    | Some st \<Rightarrow> st) of
                   None \<Rightarrow> Some now | Some t \<Rightarrow> Some t)\<rparr>),
      w\<lparr>w_conversations := (w_conversations w)
          (u \<mapsto> stamp ((patch (case w_conversations w u of None \<Rightarrow> empty_state
                                  | Some st \<Rightarrow> st))
                          \<lparr>cs_slackUserId := Some u,
                           cs_startedAt :=
                             (case cs_startedAt (case w_conversations w u of
                                                   None \<Rightarrow> empty_state | Some st \<Rightarrow> st) of
                                None \<Rightarrow> Some now | Some t \<Rightarrow> Some t)\<rparr>) now)\<rparr>)"
  by (simp add: setConversationState_def getConversationState_def
      dynamo_getConversationState_def dynamo_setConversationState_def then_do_def result_def
      no_faults_def Let_def)

lemma clear_no_faults:
  "clearConversationState no_faults u now w =
     (Inr (), w\<lparr>w_conversations := (w_conversations w)(u \<mapsto> stamp cleared_marker now)\<rparr>)"
  by (simp add: clearConversationState_def dynamo_clearConversationState_def
      dynamo_setConversationState_def no_faults_def)

lemma advance_moves:
  assumes "queue_position pending i state" and "i + 1 < length pending"
  shows "\<exists>w' s. advance_or_clear no_faults u state now w = (Inr True, w')
           \<and> w_conversations w' u = Some s
           \<and> queue_position pending (i + 1) s \<and> prompted_for (pending ! (i + 1)) s"
proof -
  from assms obtain ns where ns: "next_project_state state now = Some ns"
    and q: "queue_position pending (i + 1) ns" and p: "prompted_for (pending ! (i + 1)) ns"
    by (auto simp: next_project_state_def queue_position_def prompted_for_def Let_def)
  let ?s = "stamp (ns\<lparr>cs_slackUserId := Some u,
               cs_startedAt := (case cs_startedAt (case w_conversations w u of
                                   None \<Rightarrow> empty_state | Some st \<Rightarrow> st) of
                                  None \<Rightarrow> Some now | Some t \<Rightarrow> Some t)\<rparr>) now"
  have post: "\<not> f_post no_faults u" by (simp add: no_faults_def)
  have "advance_or_clear no_faults u state now w
      = (Inr True, w\<lparr>w_conversations := (w_conversations w)(u \<mapsto> ?s),
                     w_sent := w_sent w @ [UpdateRequest u (cs_currentProjectName ns)
                                             (cs_currentProjectGid ns)]\<rparr>)"
    unfolding advance_or_clear_def advanceToNextProject_def ns
    using post
    by (simp add: set_no_faults then_do_def result_def sendUpdateRequest_def post_def)
  moreover have "queue_position pending (i + 1) ?s" "prompted_for (pending ! (i + 1)) ?s"
    using q p by (simp_all add: queue_position_def prompted_for_def stamp_def)
  ultimately show ?thesis by simp
qed

lemma advance_ends:
  assumes "length (case cs_pendingProjects state of None \<Rightarrow> [] | Some ps \<Rightarrow> ps)
             \<le> (case cs_currentIndex state of None \<Rightarrow> 0 | Some i \<Rightarrow> i) + 1"
  shows "advance_or_clear no_faults u state now w =
     (Inr False, w\<lparr>w_conversations := (w_conversations w)(u \<mapsto> stamp cleared_marker now)\<rparr>)"
proof -
  from assms have "next_project_state state now = None"
    by (simp add: next_project_state_def Let_def)
  then show ?thesis
    by (simp add: advance_or_clear_def advanceToNextProject_def then_do_def result_def
        clear_no_faults)
qed

lemma get_no_faults: "getConversationState no_faults u w = w_conversations w u"
  by (simp add: getConversationState_def dynamo_getConversationState_def no_faults_def)

lemma advance_repeatedly_step:
  assumes "w_conversations w u = Some state"
    and "advance_or_clear no_faults u state now w = (Inr b, w')"
  shows "advance_repeatedly no_faults u (now # nows) w =
     (b # fst (advance_repeatedly no_faults u nows w'),
      snd (advance_repeatedly no_faults u nows w'))"
  using assms by (simp add: get_no_faults split_beta)

lemma after_clear:
  assumes "w_conversations w u = Some (stamp cleared_marker t)"
  shows "fst (advance_repeatedly no_faults u nows w) = replicate (length nows) False
       \<and> w_conversations (snd (advance_repeatedly no_faults u nows w)) u
           = Some (stamp cleared_marker (last (t # nows)))"
  using assms
proof (induction nows arbitrary: w t)
  case Nil
  then show ?case by simp
next
  case (Cons now nows)
  let ?w' = "w\<lparr>w_conversations := (w_conversations w)(u \<mapsto> stamp cleared_marker now)\<rparr>"
  have step: "advance_or_clear no_faults u (stamp cleared_marker t) now w = (Inr False, ?w')"
    by (rule advance_ends) (simp add: stamp_def cleared_marker_def empty_state_def)
  have "w_conversations ?w' u = Some (stamp cleared_marker now)" by simp
  from Cons.IH[OF this] show ?case
    unfolding advance_repeatedly_step[OF Cons.prems step] by simp
qed

lemma advance_repeatedly_from:
  assumes "w_conversations w u = Some state" and "queue_position pending i state"
    and "nows \<noteq> []"
  shows "length (fst (advance_repeatedly no_faults u nows w)) = length nows
       \<and> (\<forall>n<length nows. fst (advance_repeatedly no_faults u nows w) ! n
                             = (i + Suc n < length pending))
       \<and> (i + length nows < length pending \<longrightarrow>
            (\<exists>s. w_conversations (snd (advance_repeatedly no_faults u nows w)) u = Some s
               \<and> queue_position pending (i + length nows) s
               \<and> prompted_for (pending ! (i + length nows)) s))
       \<and> (length pending \<le> i + length nows \<longrightarrow>
            w_conversations (snd (advance_repeatedly no_faults u nows w)) u
              = Some (stamp cleared_marker (last nows)))"
  using assms
proof (induction nows arbitrary: w state i)
  case Nil
  then show ?case by simp
next
  case (Cons now nows)
  show ?case
  proof (cases "i + 1 < length pending")
    case True
    from advance_moves[OF Cons.prems(2) True, of u now w] obtain w' s where
      step: "advance_or_clear no_faults u state now w = (Inr True, w')"
      and s: "w_conversations w' u = Some s" "queue_position pending (i + 1) s"
         "prompted_for (pending ! (i + 1)) s"
      by blast
    note unfold = advance_repeatedly_step[OF Cons.prems(1) step]
    show ?thesis
    proof (cases "nows = []")
      case True
      with s \<open>i + 1 < length pending\<close> show ?thesis
        unfolding unfold by simp
    next
      case False
      from Cons.IH[OF s(1) s(2) False] have
        len: "length (fst (advance_repeatedly no_faults u nows w')) = length nows"
        and nth: "\<forall>n<length nows. fst (advance_repeatedly no_faults u nows w') ! n
                     = (i + 1 + Suc n < length pending)"
        and inside: "i + 1 + length nows < length pending \<longrightarrow>
            (\<exists>s. w_conversations (snd (advance_repeatedly no_faults u nows w')) u = Some s
               \<and> queue_position pending (i + 1 + length nows) s
               \<and> prompted_for (pending ! (i + 1 + length nows)) s)"
        and beyond: "length pending \<le> i + 1 + length nows \<longrightarrow>
            w_conversations (snd (advance_repeatedly no_faults u nows w')) u
              = Some (stamp cleared_marker (last nows))"
        by blast+
      have "\<forall>n<length (now # nows).
              (True # fst (advance_repeatedly no_faults u nows w')) ! n
                = (i + Suc n < length pending)"
      proof (intro allI impI)
        fix n assume "n < length (now # nows)"
        then show "(True # fst (advance_repeatedly no_faults u nows w')) ! n
                = (i + Suc n < length pending)"
          using nth \<open>i + 1 < length pending\<close> by (cases n) auto
      qed
      with len inside beyond False show ?thesis
        unfolding unfold by simp
    qed
  next
    case False
    with Cons.prems(2) have
      "length (case cs_pendingProjects state of None \<Rightarrow> [] | Some ps \<Rightarrow> ps)
         \<le> (case cs_currentIndex state of None \<Rightarrow> 0 | Some i \<Rightarrow> i) + 1"
      by (simp add: queue_position_def)
    from advance_ends[OF this, of u now w] have
      step: "advance_or_clear no_faults u state now w =
        (Inr False, w\<lparr>w_conversations := (w_conversations w)(u \<mapsto> stamp cleared_marker now)\<rparr>)" .
    have "w_conversations
        (w\<lparr>w_conversations := (w_conversations w)(u \<mapsto> stamp cleared_marker now)\<rparr>) u
        = Some (stamp cleared_marker now)" by simp
    from after_clear[OF this, of nows] have
      rs: "fst (advance_repeatedly no_faults u nows
             (w\<lparr>w_conversations := (w_conversations w)(u \<mapsto> stamp cleared_marker now)\<rparr>))
           = replicate (length nows) False"
      and fin: "w_conversations (snd (advance_repeatedly no_faults u nows
             (w\<lparr>w_conversations := (w_conversations w)(u \<mapsto> stamp cleared_marker now)\<rparr>))) u
           = Some (stamp cleared_marker (last (now # nows)))"
      by blast+
    have "\<forall>n<length (now # nows).
            (False # replicate (length nows) False) ! n = (i + Suc n < length pending)"
    proof (intro allI impI)
      fix n assume "n < length (now # nows)"
      then show "(False # replicate (length nows) False) ! n = (i + Suc n < length pending)"
        using False by (cases n) auto
    qed
    with rs fin False show ?thesis
      unfolding advance_repeatedly_step[OF Cons.prems(1) step] by simp
  qed
qed

text \<open>
  C3. Starting from \<open>currentIndex = 0\<close> on a queue of length \<open>K\<close>, with one call of
  advance-to-next-project after another (each followed by the caller's clear when it
  returns \<open>false\<close>): the \<open>n\<close>-th call returns \<open>true\<close> exactly when \<open>n < K\<close>, and after
  the \<open>n\<close>-th call the stored state is at index \<open>n\<close>, prompting for the \<open>n\<close>-th entry of
  the queue, when \<open>n < K\<close>, and is the cleared marker when \<open>n \<ge> K\<close>. So calls
  \<open>1..K-1\<close> advance and the \<open>K\<close>-th is the one that returns \<open>false\<close> and clears (with
  an empty queue that is the first call).
\<close>

theorem queue_cleared_after_last:
  assumes "w_conversations w u = Some state"
    and "cs_pendingProjects state = Some pending"
    and "cs_currentIndex state = Some 0"
    and "nows \<noteq> []"
  shows "fst (advance_repeatedly no_faults u nows w)
           = map (\<lambda>n. n < length pending) [1..<Suc (length nows)]
       \<and> (length nows < length pending \<longrightarrow>
            (\<exists>s. w_conversations (snd (advance_repeatedly no_faults u nows w)) u = Some s
               \<and> queue_position pending (length nows) s
               \<and> prompted_for (pending ! length nows) s))
       \<and> (length pending \<le> length nows \<longrightarrow>
            w_conversations (snd (advance_repeatedly no_faults u nows w)) u
              = Some (stamp cleared_marker (last nows)))"
proof -
  from assms(2,3) have "queue_position pending 0 state"
    by (simp add: queue_position_def)
  from advance_repeatedly_from[OF assms(1) this assms(4)] have
    len: "length (fst (advance_repeatedly no_faults u nows w)) = length nows"
    and nth: "\<forall>n<length nows. fst (advance_repeatedly no_faults u nows w) ! n
                 = (Suc n < length pending)"
    and rest: "(length nows < length pending \<longrightarrow>
            (\<exists>s. w_conversations (snd (advance_repeatedly no_faults u nows w)) u = Some s
               \<and> queue_position pending (length nows) s
               \<and> prompted_for (pending ! length nows) s))
       \<and> (length pending \<le> length nows \<longrightarrow>
            w_conversations (snd (advance_repeatedly no_faults u nows w)) u
              = Some (stamp cleared_marker (last nows)))"
    by simp_all
  have "fst (advance_repeatedly no_faults u nows w)
           = map (\<lambda>n. n < length pending) [1..<Suc (length nows)]"
    using len nth by (intro nth_equalityI) (simp_all del: upt_Suc)
  with rest show ?thesis by blast
qed


theorem queue_cleared_after_last_witness:
  "fst (advance_repeatedly no_faults ''U1'' [2000000, 3000000] two_project_world) = [True, False]
   \<and> w_conversations (snd (advance_repeatedly no_faults ''U1'' [2000000, 3000000]
        two_project_world)) ''U1'' = Some (stamp cleared_marker 3000000)
   \<and> (\<exists>s. w_conversations (snd (advance_repeatedly no_faults ''U1'' [2000000]
        two_project_world)) ''U1'' = Some s
        \<and> cs_currentIndex s = Some 1 \<and> cs_currentProjectGid s = Some ''1002'')"
proof -
  let ?pending = "[\<lparr>pp_gid = ''1001'', pp_name = Some ''Migracion'', pp_pmoId = Some ''PMO-911'',
                    pp_status = None\<rparr>,
                   \<lparr>pp_gid = ''1002'', pp_name = Some ''Soporte'', pp_pmoId = None,
                    pp_status = Some ''On Track''\<rparr>]"
  have a: "w_conversations two_project_world ''U1'' = Some two_project_state"
    by (simp add: two_project_world_def)
  have b: "cs_pendingProjects two_project_state = Some ?pending"
    by (simp add: two_project_state_def)
  have c: "cs_currentIndex two_project_state = Some 0"
    by (simp add: two_project_state_def)
  from queue_cleared_after_last[OF a b c, of "[2000000, 3000000]"]
    queue_cleared_after_last[OF a b c, of "[2000000]"]
  show ?thesis
    by (auto simp: queue_position_def prompted_for_def)
qed

theorem conversation_expiry_witness:
  "(\<exists>item. w_conversations
        (snd (setConversationState no_faults ''U1''
                (\<lambda>item. two_project_state\<lparr>cs_lastPromptAt := Some 7200000\<rparr>) 7200000
                two_project_world)) ''U1''
        = Some item
      \<and> cs_expiresAt item = Some 10800)
   \<and> cs_expiresAt (stamp cleared_marker 7200000) = Some 10800"
  using conversation_expiry[of 7200000 two_project_world no_faults "''U1''" two_project_state
      "\<lambda>item. two_project_state\<lparr>cs_lastPromptAt := Some 7200000\<rparr>"]
  by (simp add: no_faults_def)

section \<open>Closing a cycle and the reminder sweep at concrete inputs\<close>

lemmas io_eval =
  then_do_def result_def post_def sendUpdateRequest_def sendMessage_def
  getLastUpdates_def dynamo_getConversationState_def
  dynamo_setConversationState_def dynamo_clearConversationState_def getConversationState_def
  setConversationState_def clearConversationState_def spread_def isInUpdateFlow_def stamp_def
  cleared_marker_def empty_state_def no_faults_def or_null_def or_else_def Let_def

text \<open>
  C2, at its failing input. A user whose project already has an \<open>at_risk\<close> update has
  reported \<open>at_risk\<close> without blockers again, is at step \<open>awaiting_advances\<close> and sends the
  narrative that should close the cycle. On the earlier update the risk evaluator signals
  an alert for this report, but the handler raises a \<open>ReferenceError\<close> before it saves
  anything: the store is as before, so no update is written and the state is not
  advanced, and nothing is sent, neither the escalation nor the confirmation. The same
  happens in the dialogue that the handlers themselves lead: after the outreach and the
  status click, the blockers click changes nothing and the narrative raises the error.
\<close>

theorem closing_text_raises_reference_error:
  "handleAdvancesText no_faults ''U1'' ''Retrasos menores'' second_report_world
     = (Inl ReferenceError, second_report_world)
   \<and> w_updates second_report_world = [earlier_at_risk_update]
   \<and> w_sent second_report_world = []
   \<and> ar_shouldAlert
        (shouldAlert \<lparr>c_status = cs_status at_risk_state,
                      c_hasBlockers = cs_hasBlockers at_risk_state\<rparr>
           (w_updates second_report_world))
   \<and> handleBlockActions no_faults click_no_blockers 5070000
        (snd (handleBlockActions no_faults click_on_active 5060000 outreach_world))
       = (Inr (), snd (handleBlockActions no_faults click_on_active 5060000 outreach_world))
   \<and> handleAdvancesText no_faults ''U1'' ''Retrasos menores''
        (snd (handleBlockActions no_faults click_on_active 5060000 outreach_world))
       = (Inl ReferenceError,
          snd (handleBlockActions no_faults click_on_active 5060000 outreach_world))"
proof -
  have raised: "handleAdvancesText no_faults ''U1'' ''Retrasos menores'' w = (Inl ReferenceError, w)"
    for w
    by (rule narrative_raises_reference_error)
       (simp add: trim_def is_space_def toLowerCase_def toLowerChar_def)
  have click: "handleBlockActions no_faults click_no_blockers 5070000 w = (Inr (), w)" for w
    by (simp add: handleBlockActions_def click_no_blockers_def result_def)
  have "ar_shouldAlert
        (shouldAlert \<lparr>c_status = cs_status at_risk_state,
                      c_hasBlockers = cs_hasBlockers at_risk_state\<rparr>
           (w_updates second_report_world))"
    by (simp add: second_report_world_def at_risk_state_def earlier_at_risk_update_def
        shouldAlert_def empty_state_def)
  moreover have "w_updates second_report_world = [earlier_at_risk_update]"
    "w_sent second_report_world = []"
    by (simp_all add: second_report_world_def)
  ultimately show ?thesis
    using raised click by simp
qed

text \<open>
  C8, at its failing input. Two users are due for a reminder and reading the updates of
  the first one's project fails: the handler ends with the error, the second user gets no
  reminder and its state is not touched. Without the failure both are reminded.
\<close>

theorem sweep_aborts_on_first_failure:
  "reminder_handler updates_of_1001_unreadable 9000000
     [stalled_state ''U1'' ''1001'', stalled_state ''U2'' ''1002''] stalled_world
     = (Inl StoreError, stalled_world)
   \<and> w_sent (snd (reminder_handler no_faults 9000000
        [stalled_state ''U1'' ''1001'', stalled_state ''U2'' ''1002''] stalled_world))
     = [Notice ''U1'' (RemindBlockers (Some ''Migracion'')),
        Notice ''U2'' (RemindBlockers (Some ''Migracion''))]"
  by (simp add: reminder_handler_def sweep_state_def remind_def HOUR_MS_def stalled_state_def
      stalled_world_def updates_of_1001_unreadable_def advance_or_clear_def
      advanceToNextProject_def next_project_state_def io_eval)

section \<open>Properties of the scheduled outreach\<close>

lemma pulse_handler_single:
  "scheduled_pulse_handler no_faults clock projs [usr] now w =
     (case pulse_user no_faults clock projs (updated_today now w) now usr
             (\<lparr>st_usersProcessed = 0, st_projectsFound = 0, st_requestsSent = 0,
               st_errors = []\<rparr>, w) of
        (st, w') \<Rightarrow> (Pulse200 st, w'))"
  by (simp add: scheduled_pulse_handler_def getProjectsUpdatedToday_def no_faults_def)

lemma pulse_user_outside_hours:
  "\<not> isAppropriateTime (clock (usr_timezone usr)) \<Longrightarrow>
   snd (pulse_user fl clock projs today now usr (st, w)) = w"
  by (simp add: pulse_user_def Let_def)

lemma pulse_user_no_name:
  "or_null (usr_asanaName usr) = None \<Longrightarrow>
   snd (pulse_user fl clock projs today now usr (st, w)) = w"
  by (simp add: pulse_user_def Let_def)

lemma pulse_user_in_flow:
  "isInUpdateFlow (w_conversations w (usr_slackUserId usr)) \<Longrightarrow>
   snd (pulse_user no_faults clock projs today now usr (st, w)) = w"
  by (simp add: pulse_user_def Let_def get_no_faults split: option.splits)

lemma pulse_user_empty_queue:
  assumes "or_null (usr_asanaName usr) = Some name"
    and "build_queue today (projs name) = []"
  shows "snd (pulse_user no_faults clock projs today now usr (st, w)) = w"
  using assms by (simp add: pulse_user_def Let_def no_faults_def)

lemma pulse_user_starts_flow:
  assumes "isAppropriateTime (clock (usr_timezone usr))"
    and "or_null (usr_asanaName usr) = Some name"
    and "\<not> isInUpdateFlow (w_conversations w (usr_slackUserId usr))"
    and "build_queue today (projs name) = first # others"
  shows "\<exists>s. snd (pulse_user no_faults clock projs today now usr (st, w))
           = w\<lparr>w_conversations := (w_conversations w)(usr_slackUserId usr \<mapsto> s),
                w_sent := w_sent w @ [UpdateRequest (usr_slackUserId usr) (p_name first)
                                        (Some (p_gid first))]\<rparr>
         \<and> cs_step s = Some ''awaiting_status''
         \<and> cs_pendingProjects s = Some (map to_pending (first # others))
         \<and> cs_currentIndex s = Some 0
         \<and> cs_currentProjectGid s = Some (p_gid first)
         \<and> cs_currentProjectName s = p_name first
         \<and> cs_currentProjectPmoId s = or_null (p_pmoId first)
         \<and> cs_lastPromptAt s = Some now"
proof -
  let ?cur = "case w_conversations w (usr_slackUserId usr) of
                None \<Rightarrow> empty_state | Some st \<Rightarrow> st"
  let ?s = "stamp ((pulse_state (first # others) now ?cur)
              \<lparr>cs_slackUserId := Some (usr_slackUserId usr),
               cs_startedAt := (case cs_startedAt ?cur of None \<Rightarrow> Some now
                                | Some t \<Rightarrow> Some t)\<rparr>) now"
  have get: "getConversationState no_faults (usr_slackUserId usr) w
               = w_conversations w (usr_slackUserId usr)"
    by (simp add: getConversationState_def dynamo_getConversationState_def no_faults_def)
  have nf: "\<not> f_getProjects no_faults name" "\<not> f_post no_faults (usr_slackUserId usr)"
    by (simp_all add: no_faults_def)
  have run: "snd (pulse_user no_faults clock projs today now usr (st, w))
           = w\<lparr>w_conversations := (w_conversations w)(usr_slackUserId usr \<mapsto> ?s),
                w_sent := w_sent w @ [UpdateRequest (usr_slackUserId usr) (p_name first)
                                        (Some (p_gid first))]\<rparr>"
    using assms nf
    by (simp add: pulse_user_def Let_def get set_no_faults then_do_def sendUpdateRequest_def
        post_def)
  show ?thesis
    by (rule exI[of _ ?s]) (simp add: run pulse_state_def stamp_def)
qed

lemma configured_name:
  assumes "\<not> falsy (usr_asanaName usr)"
  shows "or_null (usr_asanaName usr) = Some (or_empty (usr_asanaName usr))"
  using assms by (auto simp: falsy_def or_null_def or_empty_def split: option.splits if_splits)

lemma pulse_user_skips:
  assumes "\<not> outreach_due clock w usr
           \<or> build_queue today (projs (or_empty (usr_asanaName usr))) = []"
  shows "snd (pulse_user no_faults clock projs today now usr (st, w)) = w"
proof (cases "falsy (usr_asanaName usr)")
  case True
  then show ?thesis by (simp add: falsy_def pulse_user_no_name)
next
  case False
  note name = configured_name[OF False]
  from assms False consider
      "\<not> isAppropriateTime (clock (usr_timezone usr))"
    | "isInUpdateFlow (w_conversations w (usr_slackUserId usr))"
    | "build_queue today (projs (or_empty (usr_asanaName usr))) = []"
    by (auto simp: outreach_due_def)
  then show ?thesis
  proof cases
    case 1
    then show ?thesis by (rule pulse_user_outside_hours)
  next
    case 2
    then show ?thesis by (rule pulse_user_in_flow)
  next
    case 3
    from pulse_user_empty_queue[where projs=projs and name="or_empty (usr_asanaName usr)",
        OF name 3]
    show ?thesis .
  qed
qed

lemma pulse_user_changes:
  "snd (pulse_user no_faults clock projs today now usr (st, w)) = w
   \<or> (\<exists>s name gid. snd (pulse_user no_faults clock projs today now usr (st, w))
         = w\<lparr>w_conversations := (w_conversations w)(usr_slackUserId usr \<mapsto> s),
              w_sent := w_sent w @ [UpdateRequest (usr_slackUserId usr) name gid]\<rparr>)"
proof (cases "outreach_due clock w usr
              \<and> build_queue today (projs (or_empty (usr_asanaName usr))) \<noteq> []")
  case False
  then have "snd (pulse_user no_faults clock projs today now usr (st, w)) = w"
    by (intro pulse_user_skips) blast
  then show ?thesis by simp
next
  case True
  then obtain first others where
    q: "build_queue today (projs (or_empty (usr_asanaName usr))) = first # others"
    by (cases "build_queue today (projs (or_empty (usr_asanaName usr)))") auto
  from True have due: "isAppropriateTime (clock (usr_timezone usr))"
    "\<not> falsy (usr_asanaName usr)"
    "\<not> isInUpdateFlow (w_conversations w (usr_slackUserId usr))"
    by (simp_all add: outreach_due_def)
  from pulse_user_starts_flow[where clock=clock and usr=usr and projs=projs
      and name="or_empty (usr_asanaName usr)", OF due(1) configured_name[OF due(2)] due(3) q,
      of now st]
  show ?thesis by blast
qed

lemma pulse_user_other:
  assumes "v \<noteq> usr_slackUserId usr"
  shows "w_conversations (snd (pulse_user no_faults clock projs today now usr (st, w))) v
           = w_conversations w v
       \<and> sent_to v (snd (pulse_user no_faults clock projs today now usr (st, w)))
           = sent_to v w"
  using pulse_user_changes[of clock projs today now usr st w] assms
  by (auto simp: sent_to_def addressed_to_def)

lemma pulse_user_updates:
  "w_updates (snd (pulse_user no_faults clock projs today now usr (st, w))) = w_updates w"
  using pulse_user_changes[of clock projs today now usr st w] by auto

lemma pulse_fold_other:
  assumes "v \<notin> usr_slackUserId ` set users"
  shows "w_conversations (snd (fold (pulse_user no_faults clock projs today now) users (st, w))) v
           = w_conversations w v
       \<and> sent_to v (snd (fold (pulse_user no_faults clock projs today now) users (st, w)))
           = sent_to v w"
  using assms
proof (induction users arbitrary: st w)
  case Nil
  then show ?case by simp
next
  case (Cons usr users)
  obtain st1 w1 where one: "pulse_user no_faults clock projs today now usr (st, w) = (st1, w1)"
    by (cases "pulse_user no_faults clock projs today now usr (st, w)") auto
  from Cons.prems have other: "v \<noteq> usr_slackUserId usr"
    and rest: "v \<notin> usr_slackUserId ` set users"
    by auto
  from pulse_user_other[OF other, of clock projs today now st w] one
  have "w_conversations w1 v = w_conversations w v \<and> sent_to v w1 = sent_to v w" by simp
  with Cons.IH[OF rest, of st1 w1] one show ?case by simp
qed

lemma pulse_fold_updates:
  "w_updates (snd (fold (pulse_user no_faults clock projs today now) users (st, w)))
     = w_updates w"
proof (induction users arbitrary: st w)
  case Nil
  then show ?case by simp
next
  case (Cons usr users)
  obtain st1 w1 where one: "pulse_user no_faults clock projs today now usr (st, w) = (st1, w1)"
    by (cases "pulse_user no_faults clock projs today now usr (st, w)") auto
  from pulse_user_updates[of clock projs today now usr st w] one
  have "w_updates w1 = w_updates w" by simp
  with Cons.IH[of st1 w1] one show ?case by simp
qed

lemma after_outreach_fold:
  "after_outreach clock projs users now w =
     snd (fold (pulse_user no_faults clock projs (updated_today now w) now) users
            (\<lparr>st_usersProcessed = 0, st_projectsFound = 0, st_requestsSent = 0,
              st_errors = []\<rparr>, w))"
  by (simp add: after_outreach_def scheduled_pulse_handler_def getProjectsUpdatedToday_def
      no_faults_def split_beta)

lemma outreach_for_one_user:
  assumes "distinct (map usr_slackUserId users)" and "usr \<in> set users"
  shows "\<exists>st w1. w_conversations w1 (usr_slackUserId usr) = w_conversations w (usr_slackUserId usr)
           \<and> sent_to (usr_slackUserId usr) w1 = sent_to (usr_slackUserId usr) w
           \<and> w_conversations (after_outreach clock projs users now w) (usr_slackUserId usr)
               = w_conversations
                   (snd (pulse_user no_faults clock projs (updated_today now w) now usr (st, w1)))
                   (usr_slackUserId usr)
           \<and> sent_to (usr_slackUserId usr) (after_outreach clock projs users now w)
               = sent_to (usr_slackUserId usr)
                   (snd (pulse_user no_faults clock projs (updated_today now w) now usr (st, w1)))"
proof -
  let ?f = "pulse_user no_faults clock projs (updated_today now w) now"
  let ?uid = "usr_slackUserId usr"
  let ?st0 = "\<lparr>st_usersProcessed = 0, st_projectsFound = 0, st_requestsSent = 0,
               st_errors = []\<rparr>"
  from assms(2) obtain earlier later where users: "users = earlier @ usr # later"
    by (auto dest: split_list)
  with assms(1) have earlier: "?uid \<notin> usr_slackUserId ` set earlier"
    and later: "?uid \<notin> usr_slackUserId ` set later"
    by auto
  obtain st1 w1 where one: "fold ?f earlier (?st0, w) = (st1, w1)"
    by (cases "fold ?f earlier (?st0, w)") auto
  obtain st2 w2 where two: "?f usr (st1, w1) = (st2, w2)"
    by (cases "?f usr (st1, w1)") auto
  have all: "after_outreach clock projs users now w = snd (fold ?f later (st2, w2))"
    by (simp add: after_outreach_fold users one two)
  from pulse_fold_other[OF earlier, of clock projs "updated_today now w" now ?st0 w] one
  have "w_conversations w1 ?uid = w_conversations w ?uid" "sent_to ?uid w1 = sent_to ?uid w"
    by simp_all
  moreover
  from pulse_fold_other[OF later, of clock projs "updated_today now w" now st2 w2] two
  have "w_conversations (after_outreach clock projs users now w) ?uid
          = w_conversations (snd (?f usr (st1, w1))) ?uid"
    "sent_to ?uid (after_outreach clock projs users now w) = sent_to ?uid (snd (?f usr (st1, w1)))"
    by (simp_all add: all)
  ultimately show ?thesis by blast
qed

lemma Number_digits_rounds:
  "Number_digits ''9007199254740993'' = enat 9007199254740992
   \<and> Number_digits ''18014398509481990'' = enat 18014398509481992"
  by (simp add: Number_digits_def decimal_def digit_value_def bit_length.simps)

text \<open>
  C9, as stated, at an onboarded user with no conversation state and three reportable
  projects whose local hour is 15: the outreach creates no state and sends nothing, because
  the handler skips every user whose local hour is not between 8 and 10.
\<close>

theorem outreach_outside_hours_counterexample:
  "build_queue (updated_today 5000000 idle_world) (harold_projects ''Harold Gomez'') \<noteq> []
   \<and> \<not> isInUpdateFlow (w_conversations idle_world (usr_slackUserId harold))
   \<and> snd (scheduled_pulse_handler no_faults (\<lambda>timezone. Hour 15) harold_projects [harold]
             5000000 idle_world) = idle_world"
proof -
  have "build_queue (updated_today 5000000 idle_world) (harold_projects ''Harold Gomez'') \<noteq> []"
    by (simp add: build_queue_def updated_today_def idle_world_def harold_projects_def
        is_completed_def or_empty_def toLowerCase_def toLowerChar_def)
  moreover have "\<not> isInUpdateFlow (w_conversations idle_world (usr_slackUserId harold))"
    by (simp add: isInUpdateFlow_def idle_world_def)
  moreover have "snd (scheduled_pulse_handler no_faults (\<lambda>timezone. Hour 15) harold_projects
                        [harold] 5000000 idle_world) = idle_world"
    using pulse_user_outside_hours[where clock="\<lambda>timezone. Hour 15" and usr=harold]
    by (simp add: pulse_handler_single isAppropriateTime_def split_beta)
  ultimately show ?thesis by blast
qed

text \<open>
  C9, amended. In a scheduled outreach without store or messaging failure over onboarded
  users with distinct identifiers, for each of them: the queue is built from the user's
  cached projects, those that are not completed (in any letter case) and have no update
  today, in ascending order of the number parsed from the business ID, those without a
  number last. The user is due when the local hour is between 8 and 10 (or the time zone
  makes the clock throw), a name is configured and no in-flow conversation state exists.
  For a user who is not due, or whose queue is empty, the conversation item is as before
  and no message is sent to the user. For a user who is due and whose queue is not empty,
  every queued project having a name, the state is written at step \<open>awaiting_status\<close>,
  index 0, with the queue and the first entry as active project, and exactly that project's
  status prompt is sent to the user. The updates are left as they are.
\<close>

theorem scheduled_outreach:
  assumes "distinct (map usr_slackUserId users)" and "usr \<in> set users"
  shows "sorted (map (\<lambda>p. parsePmoIdNumber (p_pmoId p)) (outreach_queue projs now w usr))
       \<and> mset (outreach_queue projs now w usr)
           = mset (filter (\<lambda>p. \<not> is_completed p \<and> Some (p_gid p) \<notin> set (updated_today now w))
                     (projs (or_empty (usr_asanaName usr))))
       \<and> (\<not> outreach_due clock w usr \<or> outreach_queue projs now w usr = [] \<longrightarrow>
            w_conversations (after_outreach clock projs users now w) (usr_slackUserId usr)
              = w_conversations w (usr_slackUserId usr)
            \<and> sent_to (usr_slackUserId usr) (after_outreach clock projs users now w)
                = sent_to (usr_slackUserId usr) w)
       \<and> (outreach_due clock w usr
            \<and> (\<forall>p\<in>set (outreach_queue projs now w usr). p_name p \<noteq> None) \<longrightarrow>
            (\<forall>first others. outreach_queue projs now w usr = first # others \<longrightarrow>
               (\<exists>s. w_conversations (after_outreach clock projs users now w) (usr_slackUserId usr)
                       = Some s
                   \<and> cs_step s = Some ''awaiting_status''
                   \<and> cs_pendingProjects s = Some (map to_pending (first # others))
                   \<and> cs_currentIndex s = Some 0
                   \<and> cs_currentProjectGid s = Some (p_gid first)
                   \<and> cs_currentProjectName s = p_name first
                   \<and> cs_currentProjectPmoId s = or_null (p_pmoId first)
                   \<and> cs_lastPromptAt s = Some now)
               \<and> sent_to (usr_slackUserId usr) (after_outreach clock projs users now w)
                   = sent_to (usr_slackUserId usr) w
                     @ [UpdateRequest (usr_slackUserId usr) (p_name first) (Some (p_gid first))]))
       \<and> w_updates (after_outreach clock projs users now w) = w_updates w"
proof -
  let ?uid = "usr_slackUserId usr"
  let ?today = "updated_today now w"
  let ?after = "after_outreach clock projs users now w"
  from outreach_for_one_user[OF assms, of w clock projs now] obtain st w1 where
    c1: "w_conversations w1 ?uid = w_conversations w ?uid"
    and m1: "sent_to ?uid w1 = sent_to ?uid w"
    and c2: "w_conversations ?after ?uid
               = w_conversations (snd (pulse_user no_faults clock projs ?today now usr (st, w1))) ?uid"
    and m2: "sent_to ?uid ?after
               = sent_to ?uid (snd (pulse_user no_faults clock projs ?today now usr (st, w1)))"
    by blast
  have due: "outreach_due clock w1 usr = outreach_due clock w usr"
    by (simp add: outreach_due_def c1)
  have sorted: "sorted (map (\<lambda>p. parsePmoIdNumber (p_pmoId p)) (outreach_queue projs now w usr))"
    by (simp add: outreach_queue_def build_queue_def)
  have perm: "mset (outreach_queue projs now w usr)
           = mset (filter (\<lambda>p. \<not> is_completed p \<and> Some (p_gid p) \<notin> set (updated_today now w))
                     (projs (or_empty (usr_asanaName usr))))"
    by (simp add: outreach_queue_def build_queue_def)
  have skip: "w_conversations ?after ?uid = w_conversations w ?uid
              \<and> sent_to ?uid ?after = sent_to ?uid w"
    if "\<not> outreach_due clock w usr \<or> outreach_queue projs now w usr = []"
  proof -
    from that due have "snd (pulse_user no_faults clock projs ?today now usr (st, w1)) = w1"
      by (intro pulse_user_skips) (auto simp: outreach_queue_def)
    with c1 m1 c2 m2 show ?thesis by simp
  qed
  have start: "(\<exists>s. w_conversations ?after ?uid = Some s
                   \<and> cs_step s = Some ''awaiting_status''
                   \<and> cs_pendingProjects s = Some (map to_pending (first # others))
                   \<and> cs_currentIndex s = Some 0
                   \<and> cs_currentProjectGid s = Some (p_gid first)
                   \<and> cs_currentProjectName s = p_name first
                   \<and> cs_currentProjectPmoId s = or_null (p_pmoId first)
                   \<and> cs_lastPromptAt s = Some now)
               \<and> sent_to ?uid ?after
                   = sent_to ?uid w @ [UpdateRequest ?uid (p_name first) (Some (p_gid first))]"
    if "outreach_due clock w usr" and "outreach_queue projs now w usr = first # others"
    for first others
  proof -
    from that(1) due have d: "isAppropriateTime (clock (usr_timezone usr))"
      "\<not> falsy (usr_asanaName usr)"
      "\<not> isInUpdateFlow (w_conversations w1 (usr_slackUserId usr))"
      by (simp_all add: outreach_due_def)
    from that(2) have q: "build_queue ?today (projs (or_empty (usr_asanaName usr))) = first # others"
      by (simp add: outreach_queue_def)
    from pulse_user_starts_flow[where clock=clock and usr=usr and projs=projs
        and name="or_empty (usr_asanaName usr)", OF d(1) configured_name[OF d(2)] d(3) q,
        of now st]
    obtain s where
      run: "snd (pulse_user no_faults clock projs ?today now usr (st, w1))
              = w1\<lparr>w_conversations := (w_conversations w1)(?uid \<mapsto> s),
                    w_sent := w_sent w1 @ [UpdateRequest ?uid (p_name first) (Some (p_gid first))]\<rparr>"
      and s: "cs_step s = Some ''awaiting_status''"
        "cs_pendingProjects s = Some (map to_pending (first # others))"
        "cs_currentIndex s = Some 0"
        "cs_currentProjectGid s = Some (p_gid first)"
        "cs_currentProjectName s = p_name first"
        "cs_currentProjectPmoId s = or_null (p_pmoId first)"
        "cs_lastPromptAt s = Some now"
      by blast
    have "w_conversations ?after ?uid = Some s"
      by (simp add: c2 run)
    moreover have "sent_to ?uid ?after
        = sent_to ?uid w1 @ [UpdateRequest ?uid (p_name first) (Some (p_gid first))]"
      unfolding m2 run by (simp add: sent_to_def addressed_to_def)
    with m1 have "sent_to ?uid ?after
        = sent_to ?uid w @ [UpdateRequest ?uid (p_name first) (Some (p_gid first))]"
      by simp
    ultimately show ?thesis using s by blast
  qed
  have updates: "w_updates ?after = w_updates w"
    by (simp add: after_outreach_fold pulse_fold_updates)
  from sorted perm skip start updates show ?thesis by blast
qed

theorem scheduled_outreach_witness:
  "outreach_queue harold_projects 5000000 idle_world harold
     = [harold_projects ''Harold Gomez'' ! 3, harold_projects ''Harold Gomez'' ! 1,
        harold_projects ''Harold Gomez'' ! 0]
   \<and> (\<exists>s. w_conversations
             (after_outreach (\<lambda>timezone. Hour 9) harold_projects [ines, harold] 5000000
                idle_world) ''U1'' = Some s
        \<and> cs_step s = Some ''awaiting_status'' \<and> cs_currentIndex s = Some 0
        \<and> cs_currentProjectGid s = Some ''1002'')
   \<and> sent_to ''U1''
        (after_outreach (\<lambda>timezone. Hour 9) harold_projects [ines, harold] 5000000 idle_world)
       = [UpdateRequest ''U1'' (Some ''Soporte'') (Some ''1002'')]
   \<and> w_conversations
        (after_outreach (\<lambda>timezone. Hour 9) harold_projects [ines, harold] 5000000 idle_world)
        ''U2'' = None
   \<and> sent_to ''U2''
        (after_outreach (\<lambda>timezone. Hour 9) harold_projects [ines, harold] 5000000 idle_world)
       = []"
proof -
  let ?after = "after_outreach (\<lambda>timezone. Hour 9) harold_projects [ines, harold] 5000000
                  idle_world"
  have q: "outreach_queue harold_projects 5000000 idle_world harold
     = [harold_projects ''Harold Gomez'' ! 3, harold_projects ''Harold Gomez'' ! 1,
        harold_projects ''Harold Gomez'' ! 0]"
    by (simp add: outreach_queue_def harold_def build_queue_def updated_today_def idle_world_def
        harold_projects_def is_completed_def or_empty_def or_null_def toLowerCase_def
        toLowerChar_def parsePmoIdNumber_def first_digits_def is_digit_def decimal_def
        Number_digits_def digit_value_def)
  have names: "\<forall>p\<in>set (outreach_queue harold_projects 5000000 idle_world harold). p_name p \<noteq> None"
    by (simp add: q) (simp add: harold_projects_def)
  have users: "distinct (map usr_slackUserId [ines, harold])"
    "harold \<in> set [ines, harold]" "ines \<in> set [ines, harold]"
    by (simp_all add: ines_def harold_def)
  have due: "outreach_due (\<lambda>timezone. Hour 9) idle_world harold"
    "\<not> outreach_due (\<lambda>timezone. Hour 9) idle_world ines"
    by (simp_all add: outreach_due_def isAppropriateTime_def falsy_def or_null_def harold_def
        ines_def isInUpdateFlow_def idle_world_def)
  from scheduled_outreach[OF users(1,2), of harold_projects 5000000 idle_world
      "\<lambda>timezone. Hour 9"] due(1) names q
  have "(\<exists>s. w_conversations ?after (usr_slackUserId harold) = Some s
           \<and> cs_step s = Some ''awaiting_status'' \<and> cs_currentIndex s = Some 0
           \<and> cs_currentProjectGid s = Some (p_gid (harold_projects ''Harold Gomez'' ! 3)))
        \<and> sent_to (usr_slackUserId harold) ?after
           = sent_to (usr_slackUserId harold) idle_world
             @ [UpdateRequest (usr_slackUserId harold)
                  (p_name (harold_projects ''Harold Gomez'' ! 3))
                  (Some (p_gid (harold_projects ''Harold Gomez'' ! 3)))]"
    by simp blast
  then have first: "(\<exists>s. w_conversations ?after ''U1'' = Some s
           \<and> cs_step s = Some ''awaiting_status'' \<and> cs_currentIndex s = Some 0
           \<and> cs_currentProjectGid s = Some ''1002'')
        \<and> sent_to ''U1'' ?after = [UpdateRequest ''U1'' (Some ''Soporte'') (Some ''1002'')]"
    by (simp add: harold_def harold_projects_def idle_world_def sent_to_def)
  from scheduled_outreach[OF users(1,3), of harold_projects 5000000 idle_world
      "\<lambda>timezone. Hour 9"] due(2)
  have "w_conversations ?after (usr_slackUserId ines) = w_conversations idle_world (usr_slackUserId ines)
        \<and> sent_to (usr_slackUserId ines) ?after = sent_to (usr_slackUserId ines) idle_world"
    by simp
  then have second: "w_conversations ?after ''U2'' = None \<and> sent_to ''U2'' ?after = []"
    by (simp add: ines_def idle_world_def sent_to_def)
  from q first second show ?thesis by blast
qed

section \<open>The queue invariant\<close>

lemma keeps_refl: "keeps w w"
  by (simp add: keeps_def)

lemma keeps_same: "w_conversations w' = w_conversations w \<Longrightarrow> keeps w w'"
  by (simp add: keeps_def store_ok_def)

lemma keeps_trans: "keeps w w' \<Longrightarrow> keeps w' w'' \<Longrightarrow> keeps w w''"
  by (simp add: keeps_def)

lemma keeps_then_do:
  assumes "keeps w (snd (m w))"
    and "\<And>x w1. keeps w1 (snd (f x w1))"
  shows "keeps w (snd (then_do m f w))"
proof (cases "m w")
  case (Pair r w1)
  show ?thesis
  proof (cases r)
    case (Inl e)
    with Pair assms(1) show ?thesis by (simp add: then_do_def)
  next
    case (Inr x)
    with Pair have "then_do m f w = f x w1" by (simp add: then_do_def)
    moreover from Pair assms(1) have "keeps w w1" by simp
    ultimately show ?thesis using assms(2)[of w1 x] by (auto intro: keeps_trans)
  qed
qed

lemma keeps_result: "keeps w (snd (result x w))"
  by (simp add: result_def keeps_refl)

lemma keeps_post: "keeps w (snd (post fl channel msg w))"
  by (rule keeps_same) (simp add: post_def)

lemma keeps_sendUpdateRequest: "keeps w (snd (sendUpdateRequest fl u name gid w))"
  by (simp add: sendUpdateRequest_def keeps_post)

lemma keeps_sendMessage: "keeps w (snd (sendMessage fl u notice w))"
  by (simp add: sendMessage_def keeps_post)

lemma keeps_getLastUpdates: "keeps w (snd (getLastUpdates fl gid n w))"
  by (rule keeps_same) (simp add: getLastUpdates_def)

lemma flow_item_ok_iff:
  "flow_item_ok (Some s) \<longleftrightarrow>
     (cs_step s = None \<and> cs_pendingProjects s = None)
     \<or> (isInUpdateFlow (Some s)
         \<and> (\<exists>pending i. cs_pendingProjects s = Some pending \<and> cs_currentIndex s = Some i
               \<and> i < length pending
               \<and> cs_currentProjectGid s = Some (pp_gid (pending ! i))
               \<and> cs_currentProjectName s = pp_name (pending ! i)
               \<and> cs_currentProjectPmoId s = pp_pmoId (pending ! i)
               \<and> list_all (\<lambda>p. pp_pmoId p \<noteq> Some []) pending))"
  by (auto simp: flow_item_ok_def active_matches_def queue_ok_def split: option.splits)

lemma flow_item_ok_written:
  "flow_item_ok (Some (stamp (s\<lparr>cs_slackUserId := a, cs_startedAt := b\<rparr>) now))
     = flow_item_ok (Some s)"
  by (simp add: flow_item_ok_iff isInUpdateFlow_def stamp_def)

lemma keeps_item:
  assumes "flow_item_ok (Some s)"
  shows "keeps w (w\<lparr>w_conversations := (w_conversations w)(u \<mapsto> s)\<rparr>)"
  using assms by (simp add: keeps_def store_ok_def)

lemma keeps_set_const:
  assumes "flow_item_ok (Some s)"
  shows "keeps w (snd (setConversationState fl u (\<lambda>item. s) now w))"
proof (cases "f_putConversation fl u")
  case True
  then show ?thesis
    by (simp add: setConversationState_def Let_def then_do_def
        dynamo_setConversationState_def keeps_refl)
next
  case False
  then show ?thesis
    using assms
    by (simp add: setConversationState_def Let_def then_do_def result_def
        dynamo_setConversationState_def keeps_item flow_item_ok_written)
qed

lemma keeps_set_current:
  assumes "\<not> f_getConversation fl u"
    and "flow_item_ok (w_conversations w u) \<Longrightarrow>
         flow_item_ok (Some (patch (case w_conversations w u of
                                      None \<Rightarrow> empty_state | Some st \<Rightarrow> st)))"
  shows "keeps w (snd (setConversationState fl u patch now w))"
proof (cases "f_putConversation fl u")
  case True
  then show ?thesis
    by (simp add: setConversationState_def Let_def then_do_def
        dynamo_setConversationState_def keeps_refl)
next
  case False
  have get: "getConversationState fl u w = w_conversations w u"
    using assms(1)
    by (simp add: getConversationState_def dynamo_getConversationState_def)
  show ?thesis
    unfolding keeps_def
  proof
    assume ok: "store_ok w"
    then have "flow_item_ok (w_conversations w u)" by (simp add: store_ok_def)
    from assms(2)[OF this] ok False show "store_ok (snd (setConversationState fl u patch now w))"
      by (simp add: setConversationState_def Let_def then_do_def result_def get
          dynamo_setConversationState_def store_ok_def flow_item_ok_written)
  qed
qed

lemma keeps_set_any:
  assumes "\<And>item. flow_item_ok (Some (patch item))"
  shows "keeps w (snd (setConversationState fl u patch now w))"
proof (cases "f_putConversation fl u")
  case True
  then show ?thesis
    by (simp add: setConversationState_def Let_def then_do_def
        dynamo_setConversationState_def keeps_refl)
next
  case False
  then show ?thesis
    using assms
    by (simp add: setConversationState_def Let_def then_do_def result_def
        dynamo_setConversationState_def keeps_item flow_item_ok_written)
qed

lemma flow_item_ok_cleared: "flow_item_ok (Some (stamp cleared_marker now))"
  by (simp add: flow_item_ok_iff stamp_def cleared_marker_def empty_state_def)

lemma flow_item_ok_empty: "flow_item_ok (Some empty_state)"
  by (simp add: flow_item_ok_iff empty_state_def)

lemma keeps_clear: "keeps w (snd (clearConversationState fl u now w))"
  by (simp add: clearConversationState_def dynamo_clearConversationState_def
      dynamo_setConversationState_def keeps_refl keeps_item flow_item_ok_cleared)

lemma next_project_state_ok:
  assumes "flow_item_ok (Some s)" and "next_project_state s now = Some ns"
  shows "flow_item_ok (Some ns)"
proof -
  from assms(2) obtain pending where pending: "cs_pendingProjects s = Some pending"
    by (cases "cs_pendingProjects s") (simp_all add: next_project_state_def Let_def)
  with assms(1) have ok: "list_all (\<lambda>p. pp_pmoId p \<noteq> Some []) pending"
    by (auto simp: flow_item_ok_iff)
  define i where "i = (case cs_currentIndex s of None \<Rightarrow> 0 | Some i \<Rightarrow> i)"
  from assms(2) pending have lt: "i + 1 < length pending"
    by (simp add: next_project_state_def Let_def i_def split: if_splits)
  from ok lt have "pp_pmoId (pending ! (i + 1)) \<noteq> Some []"
    by (simp add: list_all_length)
  then have pmo: "or_null (pp_pmoId (pending ! (i + 1))) = pp_pmoId (pending ! (i + 1))"
    by (simp add: or_null_def split: option.splits)
  from assms(2) pending lt have ns: "ns = s\<lparr>cs_step := Some ''awaiting_status'',
                           cs_currentIndex := Some (i + 1),
                           cs_currentProjectGid := Some (pp_gid (pending ! (i + 1))),
                           cs_currentProjectName := pp_name (pending ! (i + 1)),
                           cs_currentProjectPmoId := or_null (pp_pmoId (pending ! (i + 1))),
                           cs_status := None,
                           cs_hasBlockers := None,
                           cs_blockerDescription := None,
                           cs_lastPromptAt := Some now,
                           cs_snoozeUntil := None\<rparr>"
    by (simp add: next_project_state_def Let_def i_def)
  show ?thesis
    unfolding ns using pending ok lt pmo
    by (simp add: flow_item_ok_iff isInUpdateFlow_def)
qed

lemma keeps_advance:
  assumes "flow_item_ok (Some s)"
  shows "keeps w (snd (advanceToNextProject fl u s now w))"
proof (cases "next_project_state s now")
  case None
  then show ?thesis by (simp add: advanceToNextProject_def keeps_result)
next
  case (Some ns)
  from next_project_state_ok[OF assms Some] have "flow_item_ok (Some ns)" .
  then show ?thesis
    unfolding advanceToNextProject_def Some
    by (auto intro!: keeps_then_do keeps_set_const keeps_sendUpdateRequest keeps_result)
qed

lemma keeps_advance_or_clear:
  assumes "flow_item_ok (Some s)"
  shows "keeps w (snd (advance_or_clear fl u s now w))"
  unfolding advance_or_clear_def
  by (intro keeps_then_do keeps_advance assms)
     (auto intro!: keeps_then_do keeps_clear keeps_result)

lemma status_click_ok:
  assumes "flow_item_ok (Some s)" and "resolves_to_active s g"
  shows "flow_item_ok (Some (status_click_state (Some s) g v now s))"
proof -
  from assms(2) obtain pending i where
    pending: "cs_pendingProjects s = Some pending" and i: "cs_currentIndex s = Some i"
    and found: "find (\<lambda>p. Some (pp_gid p) = g) pending = Some (pending ! i)"
    by (auto simp: resolves_to_active_def split: option.splits)
  from assms(1) pending i have
    lt: "i < length pending"
    and gid: "cs_currentProjectGid s = Some (pp_gid (pending ! i))"
    and name: "cs_currentProjectName s = pp_name (pending ! i)"
    and pmo: "cs_currentProjectPmoId s = pp_pmoId (pending ! i)"
    and ok: "list_all (\<lambda>p. pp_pmoId p \<noteq> Some []) pending"
    by (auto simp: flow_item_ok_iff)
  from found have g: "g = Some (pp_gid (pending ! i))"
    by (auto simp: find_Some_iff)
  from ok lt have "pp_pmoId (pending ! i) \<noteq> Some []" by (simp add: list_all_length)
  then have "or_else (pp_pmoId (pending ! i)) (or_null (pp_pmoId (pending ! i)))
               = pp_pmoId (pending ! i)"
    by (simp add: or_else_def or_null_def split: option.splits)
  moreover from lt have "pending \<noteq> []" by auto
  ultimately show ?thesis
    using lt pending i found g gid name pmo ok
    by (simp add: status_click_state_def Let_def flow_item_ok_iff isInUpdateFlow_def)
qed
lemma refresh_ok:
  assumes "flow_item_ok (Some s)"
  shows "flow_item_ok (Some (s\<lparr>cs_lastPromptAt := Some now\<rparr>))"
  using assms
  by (simp add: flow_item_ok_iff isInUpdateFlow_def)

lemma pulse_state_ok:
  assumes "q \<noteq> []"
  shows "flow_item_ok (Some (pulse_state q now item))"
proof -
  from assms obtain first others where q: "q = first # others" by (cases q) auto
  have "list_all (\<lambda>p. pp_pmoId p \<noteq> Some []) (map to_pending q)"
    by (simp add: list_all_iff to_pending_def or_null_def split: option.splits)
  then show ?thesis
    unfolding q
    by (simp add: pulse_state_def flow_item_ok_iff isInUpdateFlow_def to_pending_def
        list_all_iff or_null_def split: option.splits)
qed

lemma keeps_handleBlockActions:
  assumes "ba_actionType action = ''status'' \<longrightarrow> status_click_for_active fl w action"
  shows "keeps w (snd (handleBlockActions fl action now w))"
proof (cases "ba_actionType action = ''status''")
  case True
  with assms obtain s where
    rd: "\<not> f_getConversation fl (ba_userId action)"
    and s: "w_conversations w (ba_userId action) = Some s"
    and res: "resolves_to_active s (ba_projectGid action)"
    by (auto simp: status_click_for_active_def split: option.splits)
  have get: "getConversationState fl (ba_userId action) w = Some s"
    using rd s by (simp add: getConversationState_def dynamo_getConversationState_def)
  have "keeps w (snd (setConversationState fl (ba_userId action)
            (status_click_state (Some s) (ba_projectGid action) (ba_value action) now) now w))"
    using s res by (intro keeps_set_current rd) (simp add: status_click_ok)
  then show ?thesis
    using True
    by (simp add: handleBlockActions_def Let_def get keeps_then_do keeps_result)
next
  case False
  then show ?thesis
    by (simp add: handleBlockActions_def Let_def keeps_result keeps_sendMessage keeps_refl)
qed

lemma keeps_handleAdvancesText: "keeps w (snd (handleAdvancesText fl u message w))"
  by (rule keeps_same) (simp add: handleAdvancesText_store)

lemma status_click_written:
  assumes "ba_actionType action = ''status''"
    and "\<not> f_getConversation fl (ba_userId action)"
    and "\<not> f_putConversation fl (ba_userId action)"
    and "w_conversations w (ba_userId action) = Some s"
  shows "\<exists>s'. w_conversations (snd (handleBlockActions fl action now w)) (ba_userId action)
                 = Some s'
             \<and> cs_step s' = Some ''awaiting_blockers''
             \<and> cs_currentProjectGid s' = ba_projectGid action
             \<and> cs_currentIndex s' = cs_currentIndex s
             \<and> cs_pendingProjects s' = cs_pendingProjects s"
  using assms
  by (simp add: handleBlockActions_def Let_def setConversationState_def then_do_def result_def
      getConversationState_def dynamo_getConversationState_def dynamo_setConversationState_def
      status_click_state_def stamp_def)

lemma keeps_remind: "keeps w (snd (remind fl u s w))"
  by (simp add: remind_def keeps_sendUpdateRequest keeps_sendMessage keeps_result)

lemma keeps_sweep_state:
  assumes "flow_item_ok (Some s)"
  shows "keeps w (snd (sweep_state fl now s w))"
  unfolding sweep_state_def
  by (auto intro!: keeps_then_do keeps_getLastUpdates keeps_advance_or_clear keeps_remind
      keeps_set_const keeps_result assms refresh_ok split: option.splits list.splits)

lemma keeps_sweep_loop:
  assumes "\<forall>s\<in>set states. flow_item_ok (Some s)"
  shows "keeps w (snd (sweep_loop fl now states w))"
  using assms
  by (induction states arbitrary: w)
     (auto intro!: keeps_then_do keeps_sweep_state keeps_result)

lemma keeps_reminder_handler:
  assumes "\<forall>s\<in>set states. flow_item_ok (Some s)"
  shows "keeps w (snd (reminder_handler fl now states w))"
  unfolding reminder_handler_def
  by (intro keeps_then_do keeps_sweep_loop assms keeps_result)

lemma keeps_pulse_user:
  "keeps w (snd (pulse_user fl clock projs today now usr (st, w)))"
proof -
  have step: "keeps w
      (snd (then_do (setConversationState fl u (pulse_state q now) now)
              (\<lambda>_. sendUpdateRequest fl u name gid) w))" if "q \<noteq> []" for u q name gid
    by (intro keeps_then_do keeps_set_any keeps_sendUpdateRequest)
       (simp add: pulse_state_ok that)
  show ?thesis
  proof (cases "or_null (usr_asanaName usr)")
    case None
    then show ?thesis by (simp add: pulse_user_def Let_def keeps_refl)
  next
    case (Some name)
    let ?q = "build_queue today (projs name)"
    show ?thesis
    proof (cases "?q = []")
      case True
      with Some show ?thesis by (simp add: pulse_user_def Let_def keeps_refl)
    next
      case False
      from step[OF False, of "usr_slackUserId usr" "p_name (?q ! 0)" "Some (p_gid (?q ! 0))"]
      show ?thesis
        using Some False
        by (cases "then_do (setConversationState fl (usr_slackUserId usr) (pulse_state ?q now) now)
                     (\<lambda>_. sendUpdateRequest fl (usr_slackUserId usr) (p_name (?q ! 0))
                            (Some (p_gid (?q ! 0)))) w")
           (auto simp: pulse_user_def Let_def keeps_refl split: sum.splits)
    qed
  qed
qed

lemma keeps_pulse_fold:
  "keeps w (snd (fold (pulse_user fl clock projs today now) users (st, w)))"
proof (induction users arbitrary: st w)
  case Nil
  then show ?case by (simp add: keeps_refl)
next
  case (Cons usr users)
  obtain st1 w1 where one: "pulse_user fl clock projs today now usr (st, w) = (st1, w1)"
    by (cases "pulse_user fl clock projs today now usr (st, w)") auto
  from keeps_pulse_user[of w fl clock projs today now usr st] one
  have "keeps w w1" by simp
  with Cons.IH[of w1 st1] one show ?case by (auto intro: keeps_trans)
qed

lemma keeps_pulse_handler:
  "keeps w (snd (scheduled_pulse_handler fl clock projs users now w))"
proof (cases "f_scanUsers fl \<or> f_scanUpdates fl")
  case True
  then show ?thesis
    by (auto simp: scheduled_pulse_handler_def getProjectsUpdatedToday_def keeps_refl)
next
  case False
  then show ?thesis
    using keeps_pulse_fold[of w fl clock projs "updated_today now w" now users]
    by (simp add: scheduled_pulse_handler_def getProjectsUpdatedToday_def split_beta)
qed

lemma reachable_store_ok: "reachable w \<Longrightarrow> store_ok w"
proof (induction rule: reachable.induct)
  case (started w)
  then show ?case
    by (auto simp: store_ok_def flow_item_ok_def split: option.splits)
next
  case (clicked w action fl now)
  from keeps_handleBlockActions[OF clicked.hyps(2)] clicked.IH show ?case
    by (simp add: keeps_def)
next
  case (texted w fl userId message)
  from keeps_handleAdvancesText[of w fl userId message] texted.IH show ?case
    by (simp add: keeps_def)
next
  case (swept w states fl now)
  from swept.hyps(2) swept.IH have "\<forall>s\<in>set states. flow_item_ok (Some s)"
    by (metis store_ok_def)
  from keeps_reminder_handler[OF this] swept.IH show ?case
    by (simp add: keeps_def)
next
  case (pulsed w fl clock projs users now)
  from keeps_pulse_handler[of w fl clock projs users now] pulsed.IH show ?case
    by (simp add: keeps_def)
qed


lemmas queue_eval =
  build_queue_def updated_today_def idle_world_def harold_projects_def is_completed_def
  or_empty_def toLowerCase_def toLowerChar_def parsePmoIdNumber_def first_digits_def
  is_digit_def decimal_def Number_digits_def digit_value_def

lemma outreach_world_item:
  "w_conversations outreach_world ''U1'' =
     Some (empty_state
       \<lparr>cs_slackUserId := Some ''U1'', cs_step := Some ''awaiting_status'',
        cs_pendingProjects :=
          Some [\<lparr>pp_gid = ''1002'', pp_name = Some ''Soporte'', pp_pmoId = Some ''PMO-87'',
                 pp_status = None\<rparr>,
                \<lparr>pp_gid = ''1001'', pp_name = Some ''Migracion'', pp_pmoId = Some ''PMO-911'',
                 pp_status = Some ''At Risk''\<rparr>,
                \<lparr>pp_gid = ''1003'', pp_name = Some ''PoC'', pp_pmoId = None,
                 pp_status = Some ''On Track''\<rparr>],
        cs_currentIndex := Some 0, cs_currentProjectGid := Some ''1002'',
        cs_currentProjectName := Some ''Soporte'', cs_currentProjectPmoId := Some ''PMO-87'',
        cs_lastPromptAt := Some 5000000, cs_startedAt := Some 5000000,
        cs_updatedAt := Some 5000000, cs_expiresAt := Some 8600\<rparr>)"
  by (simp add: outreach_world_def scheduled_pulse_handler_def getProjectsUpdatedToday_def
      pulse_user_def harold_def isAppropriateTime_def pulse_state_def to_pending_def
      queue_eval io_eval)

text \<open>
  C4, as stated, at the state that the outreach creates for a user with the queue
  \<open>1002, 1001, 1003\<close>: the state satisfies the invariant, and a status click whose payload
  carries \<open>1001\<close> (matched in the queue) or \<open>9999\<close> (not in the queue, the payload itself
  is kept) leaves an in-flow state whose active project is the payload's while
  \<open>currentIndex\<close> still points at \<open>1002\<close>.
\<close>

theorem status_click_breaks_invariant_counterexample:
  "isInUpdateFlow (w_conversations outreach_world ''U1'')
   \<and> active_matches (the (w_conversations outreach_world ''U1''))
   \<and> isInUpdateFlow
        (w_conversations (snd (handleBlockActions no_faults click_on_queued 5060000 outreach_world))
           ''U1'')
   \<and> \<not> active_matches
          (the (w_conversations
                  (snd (handleBlockActions no_faults click_on_queued 5060000 outreach_world))
                  ''U1''))
   \<and> isInUpdateFlow
        (w_conversations (snd (handleBlockActions no_faults click_on_unknown 5060000 outreach_world))
           ''U1'')
   \<and> \<not> active_matches
          (the (w_conversations
                  (snd (handleBlockActions no_faults click_on_unknown 5060000 outreach_world))
                  ''U1''))"
  by (simp add: handleBlockActions_def status_click_state_def click_on_queued_def
      click_on_unknown_def outreach_world_item active_matches_def io_eval)

text \<open>
  C4, amended. Take the stores reached from one whose conversation items have neither a
  step nor a queue, by scheduled outreaches, reminder sweeps over items of the store, free
  texts and button clicks, where every status click arrives while the reads of the user's
  item succeed and carries an identifier whose first match in the user's queue is the entry
  at \<open>currentIndex\<close>. In such a store every item whose step is an in-flow step has
  \<open>currentIndex\<close> inside \<open>pendingProjects\<close> and its active project's identifier, name and
  business ID equal to those of the queue entry at \<open>currentIndex\<close>. And whatever
  identifier a status click carries, when the read and the write of the user's item
  succeed it leaves the item at step \<open>awaiting_blockers\<close> with the payload's identifier as
  active project and with \<open>currentIndex\<close> and \<open>pendingProjects\<close> as they were.
\<close>

theorem queue_invariant:
  "(reachable w \<and> w_conversations w u = Some s \<and> isInUpdateFlow (Some s)
      \<longrightarrow> active_matches s)
   \<and> (ba_actionType action = ''status''
      \<and> \<not> f_getConversation fl (ba_userId action)
      \<and> \<not> f_putConversation fl (ba_userId action)
      \<and> w_conversations w0 (ba_userId action) = Some s0
      \<longrightarrow> (\<exists>s'. w_conversations (snd (handleBlockActions fl action now w0)) (ba_userId action)
                    = Some s'
                \<and> cs_step s' = Some ''awaiting_blockers''
                \<and> cs_currentProjectGid s' = ba_projectGid action
                \<and> cs_currentIndex s' = cs_currentIndex s0
                \<and> cs_pendingProjects s' = cs_pendingProjects s0))"
proof (intro conjI impI)
  assume a: "reachable w \<and> w_conversations w u = Some s \<and> isInUpdateFlow (Some s)"
  with reachable_store_ok[of w] have "flow_item_ok (Some s)"
    by (metis store_ok_def)
  with a show "active_matches s"
    by (auto simp: flow_item_ok_def isInUpdateFlow_def)
next
  assume "ba_actionType action = ''status''
      \<and> \<not> f_getConversation fl (ba_userId action)
      \<and> \<not> f_putConversation fl (ba_userId action)
      \<and> w_conversations w0 (ba_userId action) = Some s0"
  then show "\<exists>s'. w_conversations (snd (handleBlockActions fl action now w0)) (ba_userId action)
                    = Some s'
                \<and> cs_step s' = Some ''awaiting_blockers''
                \<and> cs_currentProjectGid s' = ba_projectGid action
                \<and> cs_currentIndex s' = cs_currentIndex s0
                \<and> cs_pendingProjects s' = cs_pendingProjects s0"
    by (intro status_click_written) simp_all
qed

theorem queue_invariant_witness:
  "isInUpdateFlow
     (w_conversations (snd (handleBlockActions no_faults click_on_active 5060000 outreach_world))
        ''U1'')
   \<and> cs_step (the (w_conversations
                     (snd (handleBlockActions no_faults click_on_active 5060000 outreach_world))
                     ''U1'')) = Some ''awaiting_blockers''
   \<and> active_matches
        (the (w_conversations
                (snd (handleBlockActions no_faults click_on_active 5060000 outreach_world))
                ''U1''))
   \<and> (\<exists>s'. w_conversations
              (snd (handleBlockActions no_faults click_on_queued 5060000 outreach_world)) ''U1''
              = Some s'
         \<and> cs_currentProjectGid s' = Some ''1001'' \<and> cs_currentIndex s' = Some 0)"
proof -
  let ?w = "snd (handleBlockActions no_faults click_on_active 5060000 outreach_world)"
  let ?item = "the (w_conversations outreach_world ''U1'')"
  have "reachable idle_world"
    by (rule reachable.started) (simp add: idle_world_def)
  from reachable.pulsed[OF this, of no_faults "\<lambda>timezone. Hour 9" harold_projects "[harold]"
      5000000]
  have r1: "reachable outreach_world" by (simp add: outreach_world_def)
  have "status_click_for_active no_faults outreach_world click_on_active"
    by (simp add: status_click_for_active_def click_on_active_def outreach_world_item
        resolves_to_active_def no_faults_def)
  then have r2: "reachable ?w"
    by (intro reachable.clicked r1) simp
  have item: "w_conversations ?w ''U1'' = Some (the (w_conversations ?w ''U1''))"
    and step: "cs_step (the (w_conversations ?w ''U1'')) = Some ''awaiting_blockers''"
    by (simp_all add: handleBlockActions_def status_click_state_def click_on_active_def
        outreach_world_item io_eval)
  from step have flow: "isInUpdateFlow (Some (the (w_conversations ?w ''U1'')))"
    by (simp add: isInUpdateFlow_def)
  have click: "ba_actionType click_on_queued = ''status''"
    "\<not> f_getConversation no_faults (ba_userId click_on_queued)"
    "\<not> f_putConversation no_faults (ba_userId click_on_queued)"
    "ba_userId click_on_queued = ''U1''" "ba_projectGid click_on_queued = Some ''1001''"
    by (simp_all add: click_on_queued_def no_faults_def)
  have stored: "w_conversations outreach_world ''U1'' = Some ?item"
    "cs_currentIndex ?item = Some 0"
    by (simp_all add: outreach_world_item)
  from queue_invariant[of ?w "''U1''" "the (w_conversations ?w ''U1'')" click_on_queued
      no_faults outreach_world ?item 5060000] r2 item flow step click stored
  show ?thesis by auto
qed


end